theory Spec2Isabelle
  imports Complex_Main
begin

section \<open>The connection manager of \<open>src/db/manager.py\<close>\<close>

text \<open>
  The class \<open>DatabaseManager\<close> keeps one SQLite connection per thread, one cached
  ClickHouse client with a three-valued availability flag, and a cache of the date range with a
  time to live. Every method is embedded as a function from the manager's fields and a
  record of the outside world to a result and the updated pair. What the outside world
  answers during one call (whether a connection attempt succeeds, whether the database
  file exists, what the clock shows) is the call's \<open>env\<close>. Object identities are
  natural numbers taken from a counter, time stamps and delays are real numbers, and
  every call to a collaborator is written to a log of events, in program order.
\<close>

subsection \<open>Values, exceptions and events\<close>

type_synonym tid = nat
type_synonym conn = nat
type_synonym client = nat
type_synonym cursor = nat

text \<open>The Python values a fetch function can hand back, with Python's truth test.\<close>

datatype pyval = PNone | PBool bool | PInt int | PStr string | PTuple "pyval list"

fun truthy :: "pyval \<Rightarrow> bool" where
  "truthy PNone = False"
| "truthy (PBool b) = b"
| "truthy (PInt i) = (i \<noteq> 0)"
| "truthy (PStr s) = (s \<noteq> [])"
| "truthy (PTuple vs) = (vs \<noteq> [])"

text \<open>
  \<open>SqliteFileMissing\<close> is the \<open>Exception\<close> raised at line 126; \<open>SqliteError x\<close> is
  the \<open>sqlite3.Error\<close> (an \<open>OperationalError\<close> or a \<open>DatabaseError\<close>) that the call
  \<open>x\<close> of the \<open>sqlite3\<close> library raises; \<open>Raised\<close> is an exception that comes out of
  code handed in by the caller (a fetch function, the body of a \<open>with\<close> block).
\<close>

datatype exn = SqliteFileMissing string | SqliteError string | Raised string

datatype lock = ChLock | SqliteConnsLock

datatype event =
    Attempt int
  | Sleep real
  | Acquire lock
  | Release lock
  | Heartbeat client
  | SqliteOpen conn
  | ConnClose conn
  | ClientClose client
  | ClientDisconnect client
  | CursorOpen conn cursor
  | CursorClose cursor
  | FetchCall

text \<open>What \<open>get_connection\<close> returns as first component: \<open>self._ch_client\<close> (an
  optional client) or the thread's SQLite connection.\<close>

datatype handle = Primary "client option" | Fallback conn

subsection \<open>Configuration, manager state, world and environment\<close>

record config =
  CH_MAX_RETRIES :: int
  CH_RETRY_BASE_DELAY :: real
  CH_RETRY_BACKOFF :: real
  SQLITE_DB :: string

definition default_config :: config where
  "default_config =
     \<lparr>CH_MAX_RETRIES = 3, CH_RETRY_BASE_DELAY = 1, CH_RETRY_BACKOFF = 2,
      SQLITE_DB = ''ecommerce.db''\<rparr>"

record manager =
  initialized :: bool
  thread_local :: "tid \<Rightarrow> conn option"
  sqlite_conns :: "conn list"
  ch_client :: "client option"
  ch_available :: "bool option"
  backend_type :: "string option"
  date_range_cache :: pyval
  date_range_ts :: real
  date_range_ttl :: real

text \<open>The fields as \<open>__init__\<close> sets them (lines 56 to 69).\<close>

definition init_manager :: manager where
  "init_manager =
     \<lparr>initialized = True, thread_local = (\<lambda>t. None), sqlite_conns = [],
      ch_client = None, ch_available = None, backend_type = None,
      date_range_cache = PNone, date_range_ts = 0, date_range_ttl = 60\<rparr>"

record world =
  next_id :: nat
  events :: "event list"

definition init_world :: world where
  "init_world = \<lparr>next_id = 0, events = []\<rparr>"

definition emit :: "event \<Rightarrow> world \<Rightarrow> world" where
  "emit e w = w\<lparr>events := events w @ [e]\<rparr>"

definition new_id :: "world \<Rightarrow> nat \<times> world" where
  "new_id w = (next_id w, w\<lparr>next_id := Suc (next_id w)\<rparr>)"

text \<open>
  \<open>connect_ok k\<close>: the \<open>try\<close> block of attempt \<open>k\<close> (import, \<open>get_client\<close>,
  \<open>SELECT 1\<close>) runs through without raising. \<open>heartbeat_ok\<close>: \<open>SELECT 1\<close> on the
  cached client returns. \<open>path_exists\<close>: \<open>os.path.exists\<close>. \<open>connect_raises\<close>:
  \<open>sqlite3.connect\<close> on the path raises (the path is a directory, or cannot be opened).
  \<open>execute_raises\<close>: \<open>execute\<close> of the statement on the new connection raises (the
  file is not a database, or is locked). \<open>time_now\<close>: \<open>time.time()\<close>.
  \<open>close_raises\<close>, \<open>client_close_raises\<close>: the \<open>close\<close> of a connection or client
  raises. \<open>has_attr\<close>: \<open>hasattr\<close> on a client.
\<close>

record env =
  connect_ok :: "int \<Rightarrow> bool"
  heartbeat_ok :: bool
  path_exists :: "string \<Rightarrow> bool"
  connect_raises :: "string \<Rightarrow> bool"
  execute_raises :: "string \<Rightarrow> bool"
  time_now :: real
  close_raises :: "conn \<Rightarrow> bool"
  client_close_raises :: "client \<Rightarrow> bool"
  has_attr :: "client \<Rightarrow> string \<Rightarrow> bool"

subsection \<open>\<open>_try_clickhouse_with_retry\<close> (lines 84 to 114)\<close>

text \<open>
  The \<open>for\<close> loop over \<open>range(1, CH_MAX_RETRIES + 1)\<close> is a recursion over the list of
  the attempt numbers still to run; \<open>delay\<close> is the loop's local variable. The first
  component of the result says whether the loop left through \<open>return True\<close>.
\<close>

fun retry_loop ::
  "config \<Rightarrow> env \<Rightarrow> int list \<Rightarrow> real \<Rightarrow> manager \<times> world \<Rightarrow> bool \<times> manager \<times> world" where
  "retry_loop cfg env [] delay (s, w) = (False, s, w)"
| "retry_loop cfg env (attempt # rest) delay (s, w) =
     (let w1 = emit (Attempt attempt) w in
      if connect_ok env attempt then
        (let (client, w2) = new_id w1 in
         (True,
          s\<lparr>ch_client := Some client, ch_available := Some True,
            backend_type := Some ''clickhouse''\<rparr>,
          w2))
      else if attempt < CH_MAX_RETRIES cfg then
        retry_loop cfg env rest (delay * CH_RETRY_BACKOFF cfg) (s, emit (Sleep delay) w1)
      else retry_loop cfg env rest delay (s, w1))"

definition try_clickhouse_with_retry ::
  "config \<Rightarrow> env \<Rightarrow> manager \<times> world \<Rightarrow> bool \<times> manager \<times> world" where
  "try_clickhouse_with_retry cfg env sw =
     (case retry_loop cfg env [1..CH_MAX_RETRIES cfg] (CH_RETRY_BASE_DELAY cfg) sw of
        (True, s, w) \<Rightarrow> (True, s, w)
      | (False, s, w) \<Rightarrow> (False, s\<lparr>ch_available := Some False\<rparr>, w))"

text \<open>The log a retry sequence writes when all of its \<open>n\<close> attempts fail, the first
  one numbered \<open>i\<close> and followed by a sleep of \<open>d\<close>.\<close>

definition backoff_log :: "int \<Rightarrow> int \<Rightarrow> real \<Rightarrow> real \<Rightarrow> event list" where
  "backoff_log i n d b =
     concat (map (\<lambda>k. Attempt k # (if k < n then [Sleep (d * b ^ nat (k - i))] else []))
       [i..n])"

fun attempts_of :: "event list \<Rightarrow> int list" where
  "attempts_of [] = []"
| "attempts_of (Attempt k # es) = k # attempts_of es"
| "attempts_of (e # es) = attempts_of es"

fun sleeps_of :: "event list \<Rightarrow> real list" where
  "sleeps_of [] = []"
| "sleeps_of (Sleep d # es) = d # sleeps_of es"
| "sleeps_of (e # es) = sleeps_of es"

definition never_env :: env where
  "never_env =
     \<lparr>connect_ok = (\<lambda>k. False), heartbeat_ok = False, path_exists = (\<lambda>p. False),
      connect_raises = (\<lambda>p. False), execute_raises = (\<lambda>q. False),
      time_now = 0, close_raises = (\<lambda>c. False), client_close_raises = (\<lambda>c. False),
      has_attr = (\<lambda>c a. a = ''close'')\<rparr>"

subsection \<open>\<open>_get_sqlite_conn\<close> (lines 116 to 141)\<close>

text \<open>
  \<open>thread_local s t\<close> is the attribute \<open>sqlite_conn\<close> of \<open>self._thread_local\<close> as
  thread \<open>t\<close> sees it. Lines 128 to 131 are outside any \<open>try\<close>: an exception of
  \<open>sqlite3.connect\<close> or of one of the two \<open>PRAGMA\<close> statements leaves the method. The
  connection object \<open>sqlite3.connect\<close> returns gets the next identity; when a \<open>PRAGMA\<close>
  raises, that object exists but is in no slot and not in the list.
\<close>

definition get_sqlite_conn ::
  "config \<Rightarrow> env \<Rightarrow> tid \<Rightarrow> manager \<times> world \<Rightarrow> (exn + conn) \<times> manager \<times> world" where
  "get_sqlite_conn cfg env t sw =
     (case sw of (s, w) \<Rightarrow>
        (case thread_local s t of
           Some conn \<Rightarrow> (Inr conn, s, w)
         | None \<Rightarrow>
             if \<not> path_exists env (SQLITE_DB cfg)
             then (Inl (SqliteFileMissing (SQLITE_DB cfg)), s, w)
             else if connect_raises env (SQLITE_DB cfg)
             then (Inl (SqliteError ''connect''), s, w)
             else
               (let (conn, w1) = new_id w;
                    w2 = emit (SqliteOpen conn) w1
                in
                  if execute_raises env ''PRAGMA journal_mode=WAL''
                  then (Inl (SqliteError ''PRAGMA journal_mode=WAL''), s, w2)
                  else if execute_raises env ''PRAGMA busy_timeout=5000''
                  then (Inl (SqliteError ''PRAGMA busy_timeout=5000''), s, w2)
                  else
                    (let s1 = s\<lparr>thread_local := (thread_local s)(t \<mapsto> conn)\<rparr>;
                         w3 = emit (Acquire SqliteConnsLock) w2;
                         s2 = s1\<lparr>sqlite_conns := sqlite_conns s1 @ [conn]\<rparr>;
                         w4 = emit (Release SqliteConnsLock) w3;
                         s3 = (if backend_type s2 \<noteq> Some ''sqlite''
                               then s2\<lparr>backend_type := Some ''sqlite''\<rparr> else s2)
                     in (Inr conn, s3, w4)))))"

text \<open>The exception that opening a new connection ends in, if any, in the order in which
  lines 125 to 131 can raise.\<close>

definition open_error :: "config \<Rightarrow> env \<Rightarrow> exn option" where
  "open_error cfg env =
     (if \<not> path_exists env (SQLITE_DB cfg) then Some (SqliteFileMissing (SQLITE_DB cfg))
      else if connect_raises env (SQLITE_DB cfg) then Some (SqliteError ''connect'')
      else if execute_raises env ''PRAGMA journal_mode=WAL''
      then Some (SqliteError ''PRAGMA journal_mode=WAL'')
      else if execute_raises env ''PRAGMA busy_timeout=5000''
      then Some (SqliteError ''PRAGMA busy_timeout=5000'')
      else None)"

subsection \<open>\<open>get_connection\<close> (lines 143 to 170)\<close>

text \<open>
  The method has three parts, each of which may return. The first two are given as
  functions whose first component is \<open>Some\<close> of the returned pair when that part
  returns, and \<open>None\<close> when control goes on to the next part.
\<close>

text \<open>Lines 149 to 160: the heartbeat on the cached client.\<close>

definition heartbeat_stage ::
  "env \<Rightarrow> manager \<times> world \<Rightarrow> (handle \<times> bool) option \<times> manager \<times> world" where
  "heartbeat_stage env sw =
     (case sw of (s, w) \<Rightarrow>
        if ch_available s = Some True \<and> ch_client s \<noteq> None then
          (let w1 = emit (Heartbeat (the (ch_client s))) w in
           if heartbeat_ok env then (Some (Primary (ch_client s), False), s, w1)
           else
             (let w2 = emit (Acquire ChLock) w1;
                  s1 = (if ch_available s = Some True
                        then s\<lparr>ch_client := None, ch_available := None\<rparr> else s);
                  w3 = emit (Release ChLock) w2
              in (None, s1, w3)))
        else (None, s, w))"

text \<open>Lines 163 to 167: the reconnect under the lock, with the second look at the flag.\<close>

definition reconnect_stage ::
  "config \<Rightarrow> env \<Rightarrow> manager \<times> world \<Rightarrow> (handle \<times> bool) option \<times> manager \<times> world" where
  "reconnect_stage cfg env sw =
     (case sw of (s, w) \<Rightarrow>
        if ch_available s = None then
          (let w1 = emit (Acquire ChLock) w in
           if ch_available s = None then
             (case try_clickhouse_with_retry cfg env (s, w1) of
                (True, s1, w2) \<Rightarrow>
                  (Some (Primary (ch_client s1), False), s1, emit (Release ChLock) w2)
              | (False, s1, w2) \<Rightarrow> (None, s1, emit (Release ChLock) w2))
           else (None, s, emit (Release ChLock) w1))
        else (None, s, w))"

definition get_connection ::
  "config \<Rightarrow> env \<Rightarrow> tid \<Rightarrow> manager \<times> world \<Rightarrow> (exn + handle \<times> bool) \<times> manager \<times> world" where
  "get_connection cfg env t sw =
     (case heartbeat_stage env sw of
        (Some r, s1, w1) \<Rightarrow> (Inr r, s1, w1)
      | (None, s1, w1) \<Rightarrow>
          (case reconnect_stage cfg env (s1, w1) of
             (Some r, s2, w2) \<Rightarrow> (Inr r, s2, w2)
           | (None, s2, w2) \<Rightarrow>
               (case get_sqlite_conn cfg env t (s2, w2) of
                  (Inl e, s3, w3) \<Rightarrow> (Inl e, s3, w3)
                | (Inr conn, s3, w3) \<Rightarrow> (Inr (Fallback conn, True), s3, w3))))"

subsection \<open>\<open>get_sqlite_cursor\<close> (lines 172 to 183)\<close>

text \<open>
  The body of the \<open>with\<close> block is the caller's code; of it the model keeps how it
  leaves the block. The \<open>finally\<close> clause runs on each of the three ways.
\<close>

datatype body_exit = Completes | LeavesEarly | Throws exn

definition get_sqlite_cursor ::
  "config \<Rightarrow> env \<Rightarrow> tid \<Rightarrow> (cursor \<Rightarrow> body_exit) \<Rightarrow> manager \<times> world
     \<Rightarrow> (exn + body_exit) \<times> manager \<times> world" where
  "get_sqlite_cursor cfg env t body sw =
     (case get_sqlite_conn cfg env t sw of
        (Inl e, s1, w1) \<Rightarrow> (Inl e, s1, w1)
      | (Inr conn, s1, w1) \<Rightarrow>
          (let (cursor, w2) = new_id w1;
               w3 = emit (CursorOpen conn cursor) w2
           in (case body cursor of
                 Completes \<Rightarrow> (Inr Completes, s1, emit (CursorClose cursor) w3)
               | LeavesEarly \<Rightarrow> (Inr LeavesEarly, s1, emit (CursorClose cursor) w3)
               | Throws e \<Rightarrow> (Inl e, s1, emit (CursorClose cursor) w3))))"

subsection \<open>\<open>close_all\<close> (lines 185 to 207)\<close>

definition conn_close :: "env \<Rightarrow> conn \<Rightarrow> world \<Rightarrow> (exn + unit) \<times> world" where
  "conn_close env c w =
     (if close_raises env c then Inl (Raised ''close'') else Inr (), emit (ConnClose c) w)"

text \<open>The loop of lines 189 to 193; \<open>except Exception: pass\<close> goes on with the next
  connection.\<close>

fun close_conns :: "env \<Rightarrow> conn list \<Rightarrow> world \<Rightarrow> world" where
  "close_conns env [] w = w"
| "close_conns env (conn # rest) w =
     (case conn_close env conn w of
        (Inl e, w1) \<Rightarrow> close_conns env rest w1
      | (Inr u, w1) \<Rightarrow> close_conns env rest w1)"

text \<open>Lines 197 to 203; an exception of \<open>close\<close> or \<open>disconnect\<close> is swallowed.\<close>

definition close_client :: "env \<Rightarrow> client \<Rightarrow> world \<Rightarrow> world" where
  "close_client env c w =
     (if has_attr env c ''close'' then
        (if client_close_raises env c then emit (ClientClose c) w else emit (ClientClose c) w)
      else if has_attr env c ''disconnect'' then
        (if client_close_raises env c then emit (ClientDisconnect c) w
         else emit (ClientDisconnect c) w)
      else w)"

definition close_all :: "env \<Rightarrow> manager \<times> world \<Rightarrow> manager \<times> world" where
  "close_all env sw =
     (case sw of (s, w) \<Rightarrow>
        (let w1 = emit (Acquire SqliteConnsLock) w;
             w2 = close_conns env (sqlite_conns s) w1;
             s1 = s\<lparr>sqlite_conns := []\<rparr>;
             w3 = emit (Release SqliteConnsLock) w2;
             (s2, w4) = (case ch_client s1 of
                           None \<Rightarrow> (s1, w3)
                         | Some c \<Rightarrow> (s1\<lparr>ch_client := None\<rparr>, close_client env c w3));
             s3 = s2\<lparr>ch_available := None\<rparr>;
             s4 = s3\<lparr>initialized := False\<rparr>
         in (s4, w4)))"

subsection \<open>\<open>get_date_range_cached\<close> (lines 71 to 82)\<close>

text \<open>
  \<open>fetch_impl_func\<close> is the caller's function; it returns a value or raises. Each call of it
  is logged as \<open>FetchCall\<close>.
\<close>

definition get_date_range_cached ::
  "env \<Rightarrow> (handle \<Rightarrow> bool \<Rightarrow> exn + pyval) \<Rightarrow> handle \<Rightarrow> bool \<Rightarrow> manager \<times> world
     \<Rightarrow> (exn + pyval) \<times> manager \<times> world" where
  "get_date_range_cached env fetch_impl_func db is_sqlite sw =
     (case sw of (s, w) \<Rightarrow>
        (let now = time_now env in
         if truthy (date_range_cache s) \<and> now - date_range_ts s < date_range_ttl s
         then (Inr (date_range_cache s), s, w)
         else
           (case fetch_impl_func db is_sqlite of
              Inl e \<Rightarrow> (Inl e, s, emit FetchCall w)
            | Inr result \<Rightarrow>
                (Inr result, s\<lparr>date_range_cache := result, date_range_ts := now\<rparr>,
                 emit FetchCall w))))"

fun fetch_calls :: "event list \<Rightarrow> nat" where
  "fetch_calls [] = 0"
| "fetch_calls (FetchCall # es) = Suc (fetch_calls es)"
| "fetch_calls (e # es) = fetch_calls es"

subsection \<open>Sequences of calls\<close>

text \<open>
  The calls other modules make on the one manager object \<open>db_manager\<close>, each with the
  calling thread and the environment of the call. The class is instantiated once, at
  import (line 211), so \<open>__init__\<close> is not among them.
\<close>

datatype op =
    GetConnection tid env
  | GetSqliteConn tid env
  | GetSqliteCursor tid env "cursor \<Rightarrow> body_exit"
  | GetDateRange env "handle \<Rightarrow> bool \<Rightarrow> exn + pyval" handle bool
  | CloseAll env

fun step :: "config \<Rightarrow> op \<Rightarrow> manager \<times> world \<Rightarrow> manager \<times> world" where
  "step cfg (GetConnection t env) sw = snd (get_connection cfg env t sw)"
| "step cfg (GetSqliteConn t env) sw = snd (get_sqlite_conn cfg env t sw)"
| "step cfg (GetSqliteCursor t env body) sw = snd (get_sqlite_cursor cfg env t body sw)"
| "step cfg (GetDateRange env f db b) sw = snd (get_date_range_cached env f db b sw)"
| "step cfg (CloseAll env) sw = close_all env sw"

fun run :: "config \<Rightarrow> op list \<Rightarrow> manager \<times> world \<Rightarrow> manager \<times> world" where
  "run cfg [] sw = sw"
| "run cfg (x # xs) sw = run cfg xs (step cfg x sw)"

fun is_close_all :: "op \<Rightarrow> bool" where
  "is_close_all (CloseAll env) = True"
| "is_close_all x = False"

text \<open>
  What holds of the manager after any sequence of calls: the identities it holds were
  handed out already, no two threads hold the same connection, and an available
  ClickHouse has a client.
\<close>

definition consistent :: "manager \<times> world \<Rightarrow> bool" where
  "consistent sw =
     (case sw of (s, w) \<Rightarrow>
        (\<forall>t c. thread_local s t = Some c \<longrightarrow> c < next_id w)
      \<and> (\<forall>t u c. thread_local s t = Some c \<and> thread_local s u = Some c \<longrightarrow> t = u)
      \<and> (\<forall>c. ch_client s = Some c \<longrightarrow> c < next_id w)
      \<and> (ch_available s = Some True \<longrightarrow> ch_client s \<noteq> None))"

text \<open>Environments for the examples: ClickHouse up, and ClickHouse down with or without
  the SQLite file.\<close>

definition up_env :: env where
  "up_env =
     \<lparr>connect_ok = (\<lambda>k. True), heartbeat_ok = True, path_exists = (\<lambda>p. True),
      connect_raises = (\<lambda>p. False), execute_raises = (\<lambda>q. False),
      time_now = 0, close_raises = (\<lambda>c. False), client_close_raises = (\<lambda>c. False),
      has_attr = (\<lambda>c a. a = ''close'')\<rparr>"

definition sqlite_env :: env where
  "sqlite_env =
     \<lparr>connect_ok = (\<lambda>k. False), heartbeat_ok = False, path_exists = (\<lambda>p. True),
      connect_raises = (\<lambda>p. False), execute_raises = (\<lambda>q. False),
      time_now = 0, close_raises = (\<lambda>c. False), client_close_raises = (\<lambda>c. False),
      has_attr = (\<lambda>c a. a = ''close'')\<rparr>"

definition at_time :: "real \<Rightarrow> env" where
  "at_time x = sqlite_env\<lparr>time_now := x\<rparr>"

text \<open>ClickHouse down and the path of the SQLite file there, but a directory
  (\<open>sqlite3.connect\<close> raises) or a file that is not a database (the first \<open>PRAGMA\<close>
  raises).\<close>

definition directory_env :: env where
  "directory_env = sqlite_env\<lparr>connect_raises := (\<lambda>p. True)\<rparr>"

definition not_a_database_env :: env where
  "not_a_database_env = sqlite_env\<lparr>execute_raises := (\<lambda>q. True)\<rparr>"

text \<open>Fetch functions for the examples: one that finds nothing, one that finds the range
  of the data set, one whose query fails.\<close>

definition fetch_none :: "handle \<Rightarrow> bool \<Rightarrow> exn + pyval" where
  "fetch_none db is_sqlite = Inr PNone"

definition range_2017 :: pyval where
  "range_2017 = PTuple [PStr ''2017-11-01'', PStr ''2017-12-10'']"

definition fetch_range :: "handle \<Rightarrow> bool \<Rightarrow> exn + pyval" where
  "fetch_range db is_sqlite = Inr range_2017"

definition fetch_fails :: "handle \<Rightarrow> bool \<Rightarrow> exn + pyval" where
  "fetch_fails db is_sqlite = Inl (Raised ''query failed'')"

text \<open>The connections whose \<open>close\<close> was called, in the order of the calls.\<close>

fun conn_closes :: "event list \<Rightarrow> conn list" where
  "conn_closes [] = []"
| "conn_closes (ConnClose c # es) = c # conn_closes es"
| "conn_closes (e # es) = conn_closes es"

definition body_raises :: "cursor \<Rightarrow> body_exit" where
  "body_raises c = Throws (Raised ''no such table'')"

text \<open>A run for the examples: thread 0 opens its SQLite connection, the date range is
  fetched at time 5, then the manager is shut down.\<close>

definition after_shutdown :: manager where
  "after_shutdown =
     fst (run default_config
       [GetSqliteConn 0 sqlite_env, GetDateRange (at_time 5) fetch_range (Fallback 0) True,
        CloseAll sqlite_env]
       (init_manager, init_world))"

text \<open>What \<open>close_all\<close> calls on the cached client \<open>c\<close>.\<close>

definition client_close_log :: "env \<Rightarrow> client option \<Rightarrow> event list" where
  "client_close_log env c =
     (case c of
        None \<Rightarrow> []
      | Some x \<Rightarrow>
          if has_attr env x ''close'' then [ClientClose x]
          else if has_attr env x ''disconnect'' then [ClientDisconnect x]
          else [])"

text \<open>The events that touch the ClickHouse side: attempts, sleeps, heartbeats and the
  reconnect lock.\<close>

fun touches_primary :: "event \<Rightarrow> bool" where
  "touches_primary (Attempt k) = True"
| "touches_primary (Sleep d) = True"
| "touches_primary (Heartbeat c) = True"
| "touches_primary (Acquire l) = (l = ChLock)"
| "touches_primary (Release l) = (l = ChLock)"
| "touches_primary e = False"

text \<open>The thread and the SQLite connection a call hands to its caller, if it hands one.\<close>

fun received :: "config \<Rightarrow> op \<Rightarrow> manager \<times> world \<Rightarrow> (tid \<times> conn) option" where
  "received cfg (GetSqliteConn t env) sw =
     (case fst (get_sqlite_conn cfg env t sw) of
        Inr c \<Rightarrow> Some (t, c)
      | Inl e \<Rightarrow> None)"
| "received cfg (GetConnection t env) sw =
     (case fst (get_connection cfg env t sw) of
        Inr (Fallback c, b) \<Rightarrow> Some (t, c)
      | Inr (Primary c, b) \<Rightarrow> None
      | Inl e \<Rightarrow> None)"
| "received cfg x sw = None"

text \<open>The manager and the world after a first \<open>get_connection\<close> of thread 0 with
  ClickHouse down and no SQLite file.\<close>

definition down_state :: "manager \<times> world" where
  "down_state = snd (get_connection default_config never_env 0 (init_manager, init_world))"



subsection \<open>\<open>get_connection\<close> called by several threads\<close>

text \<open>
  For concurrent callers the method is cut at the points where a thread reads or writes a
  shared field or waits: a thread's \<open>pc\<close> names the line it executes next. A thread at
  line 156 or 164 (\<open>with self._ch_lock\<close>) can take its step only when no thread holds
  the lock. The retry sequence of line 166, which runs with the lock held and writes
  \<open>_ch_available\<close> as its last action, is one step, as is \<open>_get_sqlite_conn\<close>, which
  works on the thread's own slot. \<open>ran_retry\<close> records, for the statements below, which
  threads have executed line 166.
\<close>

datatype pc =
    Idle
  | L149
  | L152
  | L156
  | L158
  | L163
  | L164
  | L165
  | L166
  | L170
  | Done "exn + handle \<times> bool"

record gstate =
  mgr :: manager
  wld :: world
  ch_lock :: "tid option"
  pcs :: "tid \<Rightarrow> pc"
  ran_retry :: "tid list"

definition goto :: "tid \<Rightarrow> pc \<Rightarrow> gstate \<Rightarrow> gstate" where
  "goto t p g = g\<lparr>pcs := (pcs g)(t := p)\<rparr>"

definition record_event :: "event \<Rightarrow> gstate \<Rightarrow> gstate" where
  "record_event e g = g\<lparr>wld := emit e (wld g)\<rparr>"

text \<open>One step of thread \<open>t\<close>; \<open>None\<close> when the thread is not in the method or waits
  for the lock.\<close>

definition tstep :: "config \<Rightarrow> env \<Rightarrow> tid \<Rightarrow> gstate \<Rightarrow> gstate option" where
  "tstep cfg env t g =
     (case pcs g t of
        Idle \<Rightarrow> None
      | Done r \<Rightarrow> None
      | L149 \<Rightarrow>
          Some (goto t (if ch_available (mgr g) = Some True \<and> ch_client (mgr g) \<noteq> None
                        then L152 else L163) g)
      | L152 \<Rightarrow>
          (case ch_client (mgr g) of
             None \<Rightarrow> Some (goto t L156 g)
           | Some c \<Rightarrow>
               if heartbeat_ok env
               then Some (goto t (Done (Inr (Primary (ch_client (mgr g)), False)))
                            (record_event (Heartbeat c) g))
               else Some (goto t L156 (record_event (Heartbeat c) g)))
      | L156 \<Rightarrow>
          (case ch_lock g of
             Some u \<Rightarrow> None
           | None \<Rightarrow> Some (goto t L158 (record_event (Acquire ChLock) (g\<lparr>ch_lock := Some t\<rparr>))))
      | L158 \<Rightarrow>
          (let g1 = (if ch_available (mgr g) = Some True
                     then g\<lparr>mgr := (mgr g)\<lparr>ch_client := None, ch_available := None\<rparr>\<rparr>
                     else g)
           in Some (goto t L163 (record_event (Release ChLock) (g1\<lparr>ch_lock := None\<rparr>))))
      | L163 \<Rightarrow> Some (goto t (if ch_available (mgr g) = None then L164 else L170) g)
      | L164 \<Rightarrow>
          (case ch_lock g of
             Some u \<Rightarrow> None
           | None \<Rightarrow> Some (goto t L165 (record_event (Acquire ChLock) (g\<lparr>ch_lock := Some t\<rparr>))))
      | L165 \<Rightarrow>
          (if ch_available (mgr g) = None then Some (goto t L166 g)
           else Some (goto t L170 (record_event (Release ChLock) (g\<lparr>ch_lock := None\<rparr>))))
      | L166 \<Rightarrow>
          (case try_clickhouse_with_retry cfg env (mgr g, wld g) of
             (ok, s1, w1) \<Rightarrow>
               Some (goto t (if ok then Done (Inr (Primary (ch_client s1), False)) else L170)
                 (record_event (Release ChLock)
                    (g\<lparr>mgr := s1, wld := w1, ch_lock := None,
                       ran_retry := ran_retry g @ [t]\<rparr>))))
      | L170 \<Rightarrow>
          (case get_sqlite_conn cfg env t (mgr g, wld g) of
             (Inl e, s1, w1) \<Rightarrow> Some (goto t (Done (Inl e)) (g\<lparr>mgr := s1, wld := w1\<rparr>))
           | (Inr conn, s1, w1) \<Rightarrow>
               Some (goto t (Done (Inr (Fallback conn, True))) (g\<lparr>mgr := s1, wld := w1\<rparr>))))"

text \<open>A schedule names, step by step, the thread that runs and what the outside world
  answers it; a thread that waits when it is scheduled stays where it is.\<close>

fun sched :: "config \<Rightarrow> (tid \<times> env) list \<Rightarrow> gstate \<Rightarrow> gstate" where
  "sched cfg [] g = g"
| "sched cfg ((t, env) # xs) g =
     sched cfg xs (case tstep cfg env t g of None \<Rightarrow> g | Some g1 \<Rightarrow> g1)"

text \<open>The callers have found \<open>_ch_available\<close> not \<open>True\<close> at line 149 and stand before
  line 163; nobody holds the lock.\<close>

definition cold_start :: "manager \<Rightarrow> world \<Rightarrow> tid list \<Rightarrow> gstate" where
  "cold_start s w callers =
     \<lparr>mgr = s, wld = w, ch_lock = None,
      pcs = (\<lambda>t. if t \<in> set callers then L163 else Idle), ran_retry = []\<rparr>"

text \<open>The results the fallback path gives: a SQLite connection, the exception of line
  126, or an error of the \<open>sqlite3\<close> calls of lines 128 to 131.\<close>

fun fallback_result :: "config \<Rightarrow> exn + handle \<times> bool \<Rightarrow> bool" where
  "fallback_result cfg (Inr (Fallback c, b)) = b"
| "fallback_result cfg (Inr (Primary c, b)) = False"
| "fallback_result cfg (Inl (SqliteFileMissing p)) = (p = SQLITE_DB cfg)"
| "fallback_result cfg (Inl (SqliteError x)) =
     (x \<in> {''connect'', ''PRAGMA journal_mode=WAL'', ''PRAGMA busy_timeout=5000''})"
| "fallback_result cfg (Inl (Raised x)) = False"

fun finished :: "pc \<Rightarrow> bool" where
  "finished (Done r) = True"
| "finished p = False"

text \<open>What holds in every state the callers can reach from a cold start.\<close>

definition cold_inv :: "config \<Rightarrow> tid list \<Rightarrow> gstate \<Rightarrow> bool" where
  "cold_inv cfg callers g =
     ((\<forall>t. pcs g t \<notin> {L149, L152, L156, L158})
    \<and> (\<forall>t. t \<notin> set callers \<longrightarrow> pcs g t = Idle)
    \<and> (\<forall>t. pcs g t = L165 \<or> pcs g t = L166 \<longrightarrow> ch_lock g = Some t)
    \<and> (\<forall>t. ch_lock g = Some t \<longrightarrow> pcs g t = L165 \<or> pcs g t = L166)
    \<and> ((ch_available (mgr g) = None) = (ran_retry g = []))
    \<and> length (ran_retry g) \<le> 1
    \<and> set (ran_retry g) \<subseteq> set callers
    \<and> (\<forall>t. pcs g t = L166 \<longrightarrow> ch_available (mgr g) = None)
    \<and> (\<forall>t. pcs g t = L170 \<or> finished (pcs g t) \<longrightarrow> ch_available (mgr g) \<noteq> None)
    \<and> (\<forall>t r. pcs g t = Done r \<longrightarrow> fallback_result cfg r \<or> t \<in> set (ran_retry g)))"

text \<open>Two callers: thread 0 has taken the lock and is about to run the retry sequence,
  thread 1 has reached line 164.\<close>

definition two_callers :: gstate where
  "two_callers =
     sched default_config
       [(0, sqlite_env), (0, sqlite_env), (0, sqlite_env), (1, sqlite_env)]
       (cold_start init_manager init_world [0, 1])"

text \<open>Two callers on a cold start with ClickHouse up: thread 0 takes the lock, thread 1
  arrives and is scheduled while it waits, thread 0 connects, then both run to the end.\<close>

definition both_done :: gstate where
  "both_done =
     sched default_config
       [(0, up_env), (0, up_env), (0, up_env), (1, up_env), (1, up_env), (0, up_env),
        (1, up_env), (1, up_env), (1, up_env)]
       (cold_start init_manager init_world [0, 1])"

section \<open>The retry sequence\<close>

lemma retry_loop_all_fail:
  assumes "\<forall>k. \<not> connect_ok env k"
  shows "retry_loop cfg env [i..CH_MAX_RETRIES cfg] d (s, w) =
     (False, s, w\<lparr>events := events w @
        backoff_log i (CH_MAX_RETRIES cfg) d (CH_RETRY_BACKOFF cfg)\<rparr>)"
proof (induction i "CH_MAX_RETRIES cfg" arbitrary: d w rule: upto.induct)
  case (1 i)
  let ?n = "CH_MAX_RETRIES cfg" and ?b = "CH_RETRY_BACKOFF cfg"
  show ?case
  proof (cases "i \<le> ?n")
    case False
    then show ?thesis by (simp add: backoff_log_def)
  next
    case True
    have unfold: "[i..?n] = i # [i + 1..?n]"
      using True by (simp add: upto_rec1)
    have shift: "backoff_log (i + 1) ?n (d * ?b) ?b =
        concat (map (\<lambda>k. Attempt k # (if k < ?n then [Sleep (d * ?b ^ nat (k - i))] else []))
          [i + 1..?n])"
    proof -
      have "\<And>k. k \<in> set [i + 1..?n] \<Longrightarrow> d * ?b * ?b ^ nat (k - (i + 1)) = d * ?b ^ nat (k - i)"
      proof -
        fix k assume "k \<in> set [i + 1..?n]"
        then have "nat (k - i) = Suc (nat (k - (i + 1)))" by auto
        then show "d * ?b * ?b ^ nat (k - (i + 1)) = d * ?b ^ nat (k - i)" by simp
      qed
      then show ?thesis
        unfolding backoff_log_def by (intro arg_cong[where f = concat] map_cong) auto
    qed
    show ?thesis
    proof (cases "i < ?n")
      case True
      then show ?thesis
        using assms "1.hyps"[OF \<open>i \<le> ?n\<close>, of "d * ?b" "emit (Sleep d) (emit (Attempt i) w)"]
        by (simp add: unfold shift emit_def) (simp add: backoff_log_def unfold)
    next
      case False
      then have "i = ?n" using \<open>i \<le> ?n\<close> by simp
      then show ?thesis
        using assms by (simp add: backoff_log_def emit_def)
    qed
  qed
qed

lemma attempts_of_append: "attempts_of (xs @ ys) = attempts_of xs @ attempts_of ys"
  by (induction xs rule: attempts_of.induct) simp_all

lemma sleeps_of_append: "sleeps_of (xs @ ys) = sleeps_of xs @ sleeps_of ys"
  by (induction xs rule: sleeps_of.induct) simp_all

lemma attempts_of_steps:
  "attempts_of (concat (map (\<lambda>k. Attempt k # (if P k then [Sleep (g k)] else [])) ks)) = ks"
  by (induction ks) (simp_all add: attempts_of_append)

lemma sleeps_of_steps:
  "sleeps_of (concat (map (\<lambda>k. Attempt k # (if P k then [Sleep (g k)] else [])) ks)) =
     map g (filter P ks)"
  by (induction ks) (simp_all add: sleeps_of_append)

lemma filter_upto_less: "filter (\<lambda>k. k < n) [i..n] = [i..n - 1]"
proof (cases "i \<le> n")
  case True
  then have "[i..n] = [i..n - 1] @ [n]" by (simp add: upto_rec2)
  then show ?thesis by simp
next
  case False
  then show ?thesis by simp
qed

text \<open>
  C1. For every \<open>CH_MAX_RETRIES \<ge> 1\<close>, when every attempt fails,
  \<open>_try_clickhouse_with_retry\<close> makes exactly the attempts \<open>1, ..., CH_MAX_RETRIES\<close>,
  sleeps \<open>CH_RETRY_BASE_DELAY * CH_RETRY_BACKOFF ^ (k - 1)\<close> right after the failed attempt
  \<open>k\<close> for every \<open>k < CH_MAX_RETRIES\<close>, does not sleep after the last attempt, sets
  \<open>_ch_available\<close> to \<open>False\<close> and returns \<open>False\<close>; nothing else of the manager
  changes.
\<close>

theorem retry_exhausted:
  assumes "1 \<le> CH_MAX_RETRIES cfg" and "\<forall>k. \<not> connect_ok env k"
  shows "try_clickhouse_with_retry cfg env (s, w) =
       (False, s\<lparr>ch_available := Some False\<rparr>,
        w\<lparr>events := events w @
          backoff_log 1 (CH_MAX_RETRIES cfg) (CH_RETRY_BASE_DELAY cfg) (CH_RETRY_BACKOFF cfg)\<rparr>)
     \<and> attempts_of (backoff_log 1 (CH_MAX_RETRIES cfg) (CH_RETRY_BASE_DELAY cfg)
            (CH_RETRY_BACKOFF cfg)) = [1..CH_MAX_RETRIES cfg]
     \<and> sleeps_of (backoff_log 1 (CH_MAX_RETRIES cfg) (CH_RETRY_BASE_DELAY cfg)
            (CH_RETRY_BACKOFF cfg)) =
         map (\<lambda>k. CH_RETRY_BASE_DELAY cfg * CH_RETRY_BACKOFF cfg ^ nat (k - 1))
           [1..CH_MAX_RETRIES cfg - 1]
     \<and> last (backoff_log 1 (CH_MAX_RETRIES cfg) (CH_RETRY_BASE_DELAY cfg)
            (CH_RETRY_BACKOFF cfg)) = Attempt (CH_MAX_RETRIES cfg)"
proof -
  let ?n = "CH_MAX_RETRIES cfg" and ?d = "CH_RETRY_BASE_DELAY cfg" and ?b = "CH_RETRY_BACKOFF cfg"
  have run: "try_clickhouse_with_retry cfg env (s, w) =
     (False, s\<lparr>ch_available := Some False\<rparr>,
      w\<lparr>events := events w @ backoff_log 1 ?n ?d ?b\<rparr>)"
    by (simp add: try_clickhouse_with_retry_def retry_loop_all_fail[OF assms(2)])
  have att: "attempts_of (backoff_log 1 ?n ?d ?b) = [1..?n]"
    by (simp add: backoff_log_def attempts_of_steps)
  have sl: "sleeps_of (backoff_log 1 ?n ?d ?b) = map (\<lambda>k. ?d * ?b ^ nat (k - 1)) [1..?n - 1]"
    by (simp add: backoff_log_def sleeps_of_steps filter_upto_less)
  have "[1..?n] = [1..?n - 1] @ [?n]"
    using assms(1) by (simp add: upto_rec2)
  then have la: "last (backoff_log 1 ?n ?d ?b) = Attempt ?n"
    by (simp add: backoff_log_def)
  from run att sl la show ?thesis by simp
qed

text \<open>
  With the values of \<open>src/core/config.py\<close> (three attempts, one second, factor two) and a
  ClickHouse that never answers, the log is: attempt, sleep 1, attempt, sleep 2, attempt;
  three seconds of sleep in all.
\<close>

theorem retry_exhausted_defaults:
  "1 \<le> CH_MAX_RETRIES default_config \<and> (\<forall>k. \<not> connect_ok never_env k)
   \<and> try_clickhouse_with_retry default_config never_env (init_manager, init_world) =
       (False, init_manager\<lparr>ch_available := Some False\<rparr>,
        init_world\<lparr>events := [Attempt 1, Sleep 1, Attempt 2, Sleep 2, Attempt 3]\<rparr>)
   \<and> sum_list (sleeps_of [Attempt 1, Sleep 1, Attempt 2, Sleep 2, Attempt 3]) = 3"
proof -
  have log: "backoff_log 1 3 1 2 = [Attempt 1, Sleep 1, Attempt 2, Sleep 2, Attempt 3]"
    by (simp add: backoff_log_def upto.simps)
  have total: "sum_list (sleeps_of [Attempt 1, Sleep 1, Attempt 2, Sleep 2, Attempt 3]) = 3"
    by simp
  have "1 \<le> CH_MAX_RETRIES default_config \<and> (\<forall>k. \<not> connect_ok never_env k)
     \<and> try_clickhouse_with_retry default_config never_env (init_manager, init_world) =
       (False, init_manager\<lparr>ch_available := Some False\<rparr>,
        init_world\<lparr>events := [Attempt 1, Sleep 1, Attempt 2, Sleep 2, Attempt 3]\<rparr>)"
    using retry_exhausted [of default_config never_env init_manager init_world]
    by (simp add: default_config_def never_env_def init_world_def log)
  with total show ?thesis by blast
qed

section \<open>The date range cache\<close>

lemma fetch_calls_append: "fetch_calls (xs @ ys) = fetch_calls xs + fetch_calls ys"
  by (induction xs rule: fetch_calls.induct) simp_all

lemma date_range_miss:
  assumes "\<not> (truthy (date_range_cache s) \<and> time_now env - date_range_ts s < date_range_ttl s)"
  shows "get_date_range_cached env f db b (s, w) =
     (case f db b of
        Inl e \<Rightarrow> (Inl e, s, emit FetchCall w)
      | Inr r \<Rightarrow> (Inr r, s\<lparr>date_range_cache := r, date_range_ts := time_now env\<rparr>,
                   emit FetchCall w))"
  using assms by (auto simp: get_date_range_cached_def Let_def split: sum.splits)

lemma date_range_hit:
  assumes "truthy (date_range_cache s)" and "time_now env - date_range_ts s < date_range_ttl s"
  shows "get_date_range_cached env f db b (s, w) = (Inr (date_range_cache s), s, w)"
  using assms by (simp add: get_date_range_cached_def)

text \<open>
  C10. When the fetch function returns a falsy value (\<open>None\<close>, an empty tuple) on a
  call that does not hit the cache, the value is stored with the time of the call, and the
  next call, at whatever time and with whatever fetch function, calls its fetch function
  again: the stored value is not served.
\<close>

theorem falsy_value_never_served:
  assumes "\<not> (truthy (date_range_cache s) \<and> time_now env - date_range_ts s < date_range_ttl s)"
    and "f db b = Inr v" and "\<not> truthy v"
  shows "get_date_range_cached env f db b (s, w) =
       (Inr v, s\<lparr>date_range_cache := v, date_range_ts := time_now env\<rparr>, emit FetchCall w)
     \<and> get_date_range_cached env2 g db2 b2
         (s\<lparr>date_range_cache := v, date_range_ts := time_now env\<rparr>, w2) =
       (case g db2 b2 of
          Inl e \<Rightarrow>
            (Inl e, s\<lparr>date_range_cache := v, date_range_ts := time_now env\<rparr>,
             emit FetchCall w2)
        | Inr r \<Rightarrow>
            (Inr r, s\<lparr>date_range_cache := r, date_range_ts := time_now env2\<rparr>,
             emit FetchCall w2))"
proof -
  have first: "get_date_range_cached env f db b (s, w) =
       (Inr v, s\<lparr>date_range_cache := v, date_range_ts := time_now env\<rparr>, emit FetchCall w)"
    using date_range_miss[OF assms(1), of f db b w] assms(2) by simp
  have "\<not> (truthy (date_range_cache (s\<lparr>date_range_cache := v, date_range_ts := time_now env\<rparr>))
        \<and> time_now env2 - date_range_ts (s\<lparr>date_range_cache := v, date_range_ts := time_now env\<rparr>)
            < date_range_ttl (s\<lparr>date_range_cache := v, date_range_ts := time_now env\<rparr>))"
    using assms(3) by simp
  from date_range_miss[OF this, of g db2 b2 w2] first show ?thesis
    by (simp split: sum.splits)
qed

theorem falsy_value_never_served_witness:
  "\<not> (truthy (date_range_cache init_manager)
       \<and> time_now (at_time 100) - date_range_ts init_manager < date_range_ttl init_manager)
   \<and> (\<lambda>db b. Inr (PTuple [])) (Fallback 0) True = (Inr (PTuple []) :: exn + pyval)
   \<and> \<not> truthy (PTuple [])
   \<and> get_date_range_cached (at_time 100) (\<lambda>db b. Inr (PTuple [])) (Fallback 0) True
        (init_manager, init_world) =
       (Inr (PTuple []), init_manager\<lparr>date_range_cache := PTuple [], date_range_ts := 100\<rparr>,
        init_world\<lparr>events := [FetchCall]\<rparr>)
   \<and> get_date_range_cached (at_time 101) (\<lambda>db b. Inr (PTuple [])) (Fallback 0) True
        (init_manager\<lparr>date_range_cache := PTuple [], date_range_ts := 100\<rparr>,
         init_world\<lparr>events := [FetchCall]\<rparr>) =
       (Inr (PTuple []), init_manager\<lparr>date_range_cache := PTuple [], date_range_ts := 101\<rparr>,
        init_world\<lparr>events := [FetchCall, FetchCall]\<rparr>)"
  using falsy_value_never_served [of init_manager "at_time 100" "\<lambda>db b. Inr (PTuple [])"
      "Fallback 0" True "PTuple []" init_world "at_time 101" "\<lambda>db b. Inr (PTuple [])"
      "Fallback 0" True "init_world\<lparr>events := [FetchCall]\<rparr>"]
  by (simp add: init_manager_def init_world_def at_time_def sqlite_env_def emit_def)

text \<open>
  C5, as the code has it. If a call returns a truthy value \<open>v\<close> without raising and a
  second call comes less than the time to live after it, the two calls together call
  the fetch function at most once, and when the first call fetched (and so stored \<open>v\<close>) the
  second returns \<open>v\<close> from the cache and changes nothing. A call at least the time to
  live after the stored time stamp calls the fetch function. When a call that misses
  the cache gets an exception from the fetch function, the exception is the call's result
  and the manager is unchanged.
\<close>

theorem date_range_cache_ttl:
  "(get_date_range_cached env1 f1 db1 b1 (s, w) = (Inr v, s1, w1) \<and> truthy v
      \<and> time_now env2 - time_now env1 < date_range_ttl s
      \<and> get_date_range_cached env2 f2 db2 b2 (s1, w1) = (r2, s2, w2)
    \<longrightarrow> fetch_calls (events w2) \<le> Suc (fetch_calls (events w))
        \<and> (fetch_calls (events w1) = Suc (fetch_calls (events w))
             \<longrightarrow> (r2, s2, w2) = (Inr v, s1, w1)))
   \<and> (date_range_ttl s \<le> time_now env - date_range_ts s
    \<longrightarrow> get_date_range_cached env f db b (s, w) =
         (case f db b of
            Inl e \<Rightarrow> (Inl e, s, emit FetchCall w)
          | Inr r \<Rightarrow> (Inr r, s\<lparr>date_range_cache := r, date_range_ts := time_now env\<rparr>,
                       emit FetchCall w)))
   \<and> (\<not> (truthy (date_range_cache s) \<and> time_now env - date_range_ts s < date_range_ttl s)
      \<and> f db b = Inl e
    \<longrightarrow> get_date_range_cached env f db b (s, w) = (Inl e, s, emit FetchCall w))"
proof (intro conjI impI)
  assume h: "get_date_range_cached env1 f1 db1 b1 (s, w) = (Inr v, s1, w1) \<and> truthy v
      \<and> time_now env2 - time_now env1 < date_range_ttl s
      \<and> get_date_range_cached env2 f2 db2 b2 (s1, w1) = (r2, s2, w2)"
  show "fetch_calls (events w2) \<le> Suc (fetch_calls (events w))"
  proof (cases "truthy (date_range_cache s) \<and> time_now env1 - date_range_ts s < date_range_ttl s")
    case True
    then have "s1 = s" "w1 = w"
      using h date_range_hit[of s env1 f1 db1 b1 w] by simp_all
    then show ?thesis
      using h by (auto simp: get_date_range_cached_def Let_def emit_def fetch_calls_append
          split: if_splits sum.splits)
  next
    case False
    from date_range_miss[OF this, of f1 db1 b1 w] h
    have 1: "s1 = s\<lparr>date_range_cache := v, date_range_ts := time_now env1\<rparr>"
        "w1 = emit FetchCall w"
      by (auto split: sum.splits)
    then have "get_date_range_cached env2 f2 db2 b2 (s1, w1) = (Inr v, s1, w1)"
      using h date_range_hit[of s1 env2 f2 db2 b2 w1] by simp
    then have "w2 = emit FetchCall w" using h 1 by simp
    then show ?thesis
      by (simp add: emit_def fetch_calls_append)
  qed
  assume c: "fetch_calls (events w1) = Suc (fetch_calls (events w))"
  have miss: "\<not> (truthy (date_range_cache s) \<and> time_now env1 - date_range_ts s < date_range_ttl s)"
  proof
    assume "truthy (date_range_cache s) \<and> time_now env1 - date_range_ts s < date_range_ttl s"
    then have "w1 = w" using h date_range_hit[of s env1 f1 db1 b1 w] by simp
    with c show False by simp
  qed
  from date_range_miss[OF this, of f1 db1 b1 w] h
  have 1: "s1 = s\<lparr>date_range_cache := v, date_range_ts := time_now env1\<rparr>"
    by (auto split: sum.splits)
  then have "get_date_range_cached env2 f2 db2 b2 (s1, w1) = (Inr v, s1, w1)"
    using h date_range_hit[of s1 env2 f2 db2 b2 w1] by simp
  then show "(r2, s2, w2) = (Inr v, s1, w1)" using h by simp
next
  assume "date_range_ttl s \<le> time_now env - date_range_ts s"
  then have "\<not> (truthy (date_range_cache s) \<and> time_now env - date_range_ts s < date_range_ttl s)"
    by simp
  from date_range_miss[OF this] show "get_date_range_cached env f db b (s, w) =
         (case f db b of
            Inl e \<Rightarrow> (Inl e, s, emit FetchCall w)
          | Inr r \<Rightarrow> (Inr r, s\<lparr>date_range_cache := r, date_range_ts := time_now env\<rparr>,
                       emit FetchCall w))" .
next
  assume "\<not> (truthy (date_range_cache s) \<and> time_now env - date_range_ts s < date_range_ttl s)
      \<and> f db b = Inl e"
  then show "get_date_range_cached env f db b (s, w) = (Inl e, s, emit FetchCall w)"
    using date_range_miss[of s env f db b w] by simp
qed

text \<open>
  The scenario of a time to live of 60 seconds: the range is fetched at time 0, a call at
  time 30 returns the stored tuple without fetching (its fetch function would fail), a
  call at time 61 fetches again; and a failing fetch at time 0 leaves the fresh manager
  as it was.
\<close>

theorem date_range_cache_ttl_witness:
  "get_date_range_cached (at_time 0) fetch_range (Fallback 0) True (init_manager, init_world) =
     (Inr range_2017, init_manager\<lparr>date_range_cache := range_2017, date_range_ts := 0\<rparr>,
      init_world\<lparr>events := [FetchCall]\<rparr>)
   \<and> truthy range_2017
   \<and> time_now (at_time 30) - time_now (at_time 0) < date_range_ttl init_manager
   \<and> get_date_range_cached (at_time 30) fetch_fails (Fallback 0) True
        (init_manager\<lparr>date_range_cache := range_2017, date_range_ts := 0\<rparr>,
         init_world\<lparr>events := [FetchCall]\<rparr>) =
     (Inr range_2017, init_manager\<lparr>date_range_cache := range_2017, date_range_ts := 0\<rparr>,
      init_world\<lparr>events := [FetchCall]\<rparr>)
   \<and> fetch_calls (events (init_world\<lparr>events := [FetchCall]\<rparr>)) = Suc (fetch_calls (events init_world))
   \<and> date_range_ttl (init_manager\<lparr>date_range_cache := range_2017, date_range_ts := 0\<rparr>)
       \<le> time_now (at_time 61)
           - date_range_ts (init_manager\<lparr>date_range_cache := range_2017, date_range_ts := 0\<rparr>)
   \<and> get_date_range_cached (at_time 61) fetch_range (Fallback 0) True
        (init_manager\<lparr>date_range_cache := range_2017, date_range_ts := 0\<rparr>,
         init_world\<lparr>events := [FetchCall]\<rparr>) =
     (Inr range_2017, init_manager\<lparr>date_range_cache := range_2017, date_range_ts := 61\<rparr>,
      init_world\<lparr>events := [FetchCall, FetchCall]\<rparr>)
   \<and> \<not> (truthy (date_range_cache init_manager)
         \<and> time_now (at_time 0) - date_range_ts init_manager < date_range_ttl init_manager)
   \<and> fetch_fails (Fallback 0) True = Inl (Raised ''query failed'')
   \<and> get_date_range_cached (at_time 0) fetch_fails (Fallback 0) True (init_manager, init_world) =
     (Inl (Raised ''query failed''), init_manager, init_world\<lparr>events := [FetchCall]\<rparr>)"
  using
    date_range_cache_ttl [where ?env1.0 = "at_time 0" and ?f1.0 = fetch_range
      and ?db1.0 = "Fallback 0" and ?b1.0 = True and s = init_manager and w = init_world
      and v = range_2017
      and ?s1.0 = "init_manager\<lparr>date_range_cache := range_2017, date_range_ts := 0\<rparr>"
      and ?w1.0 = "init_world\<lparr>events := [FetchCall]\<rparr>"
      and ?env2.0 = "at_time 30" and ?f2.0 = fetch_fails and ?db2.0 = "Fallback 0"
      and ?b2.0 = True and ?r2.0 = "Inr range_2017"
      and ?s2.0 = "init_manager\<lparr>date_range_cache := range_2017, date_range_ts := 0\<rparr>"
      and ?w2.0 = "init_world\<lparr>events := [FetchCall]\<rparr>"
      and env = "at_time 0" and f = fetch_fails and db = "Fallback 0" and b = True
      and e = "Raised ''query failed''"]
    date_range_cache_ttl [where s = "init_manager\<lparr>date_range_cache := range_2017, date_range_ts := 0\<rparr>"
      and w = "init_world\<lparr>events := [FetchCall]\<rparr>" and env = "at_time 61"
      and f = fetch_range and db = "Fallback 0" and b = True]
  by (simp add: init_manager_def init_world_def at_time_def sqlite_env_def emit_def
      fetch_range_def fetch_fails_def range_2017_def get_date_range_cached_def)

text \<open>
  Two calls one second apart whose fetch function returns \<open>None\<close>: the fetch function is
  called twice.
\<close>

theorem date_range_cache_ttl_counterexample:
  "time_now (at_time 101) - time_now (at_time 100) < date_range_ttl init_manager
   \<and> fetch_calls (events (snd (snd
        (get_date_range_cached (at_time 101) fetch_none (Fallback 0) True
          (snd (get_date_range_cached (at_time 100) fetch_none (Fallback 0) True
             (init_manager, init_world))))))) = 2"
  by (simp add: init_manager_def init_world_def at_time_def sqlite_env_def emit_def
      fetch_none_def get_date_range_cached_def)

section \<open>The per-thread SQLite connections\<close>

lemma conn_closes_append: "conn_closes (xs @ ys) = conn_closes xs @ conn_closes ys"
  by (induction xs rule: conn_closes.induct) simp_all

lemma get_sqlite_conn_eq:
  "get_sqlite_conn cfg env t (s, w) =
     (case thread_local s t of
        Some c \<Rightarrow> (Inr c, s, w)
      | None \<Rightarrow>
          (case open_error cfg env of
             Some e \<Rightarrow>
               (Inl e, s,
                if path_exists env (SQLITE_DB cfg) \<and> \<not> connect_raises env (SQLITE_DB cfg)
                then w\<lparr>next_id := Suc (next_id w),
                       events := events w @ [SqliteOpen (next_id w)]\<rparr>
                else w)
           | None \<Rightarrow>
               (Inr (next_id w),
                s\<lparr>thread_local := (thread_local s)(t \<mapsto> next_id w),
                  sqlite_conns := sqlite_conns s @ [next_id w],
                  backend_type := Some ''sqlite''\<rparr>,
                w\<lparr>next_id := Suc (next_id w),
                  events := events w @
                    [SqliteOpen (next_id w), Acquire SqliteConnsLock,
                     Release SqliteConnsLock]\<rparr>)))"
proof (cases "backend_type s = Some ''sqlite''")
  case True
  then have "s\<lparr>backend_type := Some ''sqlite''\<rparr> = s" by (cases s) simp
  with True show ?thesis
    by (auto simp: get_sqlite_conn_def open_error_def new_id_def emit_def Let_def
        split: option.splits)
next
  case False
  then show ?thesis
    by (auto simp: get_sqlite_conn_def open_error_def new_id_def emit_def Let_def
        split: option.splits)
qed

lemma open_error_None:
  "(open_error cfg env = None) =
     (path_exists env (SQLITE_DB cfg) \<and> \<not> connect_raises env (SQLITE_DB cfg)
      \<and> \<not> execute_raises env ''PRAGMA journal_mode=WAL''
      \<and> \<not> execute_raises env ''PRAGMA busy_timeout=5000'')"
  by (simp add: open_error_def)

lemma open_error_missing:
  "(open_error cfg env = Some (SqliteFileMissing (SQLITE_DB cfg))) =
     (\<not> path_exists env (SQLITE_DB cfg))"
  by (simp add: open_error_def)

lemma open_error_fallback_result:
  "open_error cfg env = Some e \<Longrightarrow> fallback_result cfg (Inl e)"
  by (auto simp: open_error_def split: if_splits)

text \<open>
  C8, as the code has it. For a thread that has no cached connection, \<open>_get_sqlite_conn\<close>
  raises the exception of line 126 if and only if the SQLite file does not exist at
  \<open>SQLITE_DB\<close>, and then the manager and the world are as before the call. It raises at
  all if and only if the file does not exist or \<open>sqlite3.connect\<close> or one of the two
  \<open>PRAGMA\<close> statements raises. Whenever it raises, the manager (the thread's slot and
  the list of tracked connections with it) is as before the call.
\<close>

theorem sqlite_missing_raises:
  assumes "thread_local s t = None"
  shows "(fst (get_sqlite_conn cfg env t (s, w)) = Inl (SqliteFileMissing (SQLITE_DB cfg))) =
         (\<not> path_exists env (SQLITE_DB cfg))
     \<and> (\<not> path_exists env (SQLITE_DB cfg) \<longrightarrow>
          get_sqlite_conn cfg env t (s, w) = (Inl (SqliteFileMissing (SQLITE_DB cfg)), s, w))
     \<and> isl (fst (get_sqlite_conn cfg env t (s, w))) =
         (\<not> path_exists env (SQLITE_DB cfg) \<or> connect_raises env (SQLITE_DB cfg)
          \<or> execute_raises env ''PRAGMA journal_mode=WAL''
          \<or> execute_raises env ''PRAGMA busy_timeout=5000'')
     \<and> (isl (fst (get_sqlite_conn cfg env t (s, w))) \<longrightarrow>
          fst (snd (get_sqlite_conn cfg env t (s, w))) = s)"
proof -
  have 1: "(fst (get_sqlite_conn cfg env t (s, w)) = Inl (SqliteFileMissing (SQLITE_DB cfg))) =
         (\<not> path_exists env (SQLITE_DB cfg))"
    using assms open_error_missing[of cfg env]
    by (auto simp: get_sqlite_conn_eq split: option.splits)
  have 2: "\<not> path_exists env (SQLITE_DB cfg) \<longrightarrow>
          get_sqlite_conn cfg env t (s, w) = (Inl (SqliteFileMissing (SQLITE_DB cfg)), s, w)"
    using assms by (simp add: get_sqlite_conn_eq open_error_def)
  have 3: "isl (fst (get_sqlite_conn cfg env t (s, w))) =
         (\<not> path_exists env (SQLITE_DB cfg) \<or> connect_raises env (SQLITE_DB cfg)
          \<or> execute_raises env ''PRAGMA journal_mode=WAL''
          \<or> execute_raises env ''PRAGMA busy_timeout=5000'')"
    using assms open_error_None[of cfg env]
    by (cases "open_error cfg env") (auto simp: get_sqlite_conn_eq)
  have 4: "isl (fst (get_sqlite_conn cfg env t (s, w))) \<longrightarrow>
          fst (snd (get_sqlite_conn cfg env t (s, w))) = s"
    using assms by (simp add: get_sqlite_conn_eq split: option.splits)
  from 1 2 3 4 show ?thesis by blast
qed

text \<open>
  On a fresh manager: without the file the call raises the exception of line 126 and
  changes nothing; with a file that is not a database it raises the error of the first
  \<open>PRAGMA\<close> and leaves the manager as it was; with a database there it returns a
  connection.
\<close>

theorem sqlite_missing_raises_witness:
  "thread_local init_manager 0 = None
   \<and> \<not> path_exists never_env (SQLITE_DB default_config)
   \<and> get_sqlite_conn default_config never_env 0 (init_manager, init_world) =
       (Inl (SqliteFileMissing ''ecommerce.db''), init_manager, init_world)
   \<and> execute_raises not_a_database_env ''PRAGMA journal_mode=WAL''
   \<and> isl (fst (get_sqlite_conn default_config not_a_database_env 0 (init_manager, init_world)))
   \<and> fst (snd (get_sqlite_conn default_config not_a_database_env 0 (init_manager, init_world))) =
       init_manager
   \<and> path_exists sqlite_env (SQLITE_DB default_config)
   \<and> \<not> isl (fst (get_sqlite_conn default_config sqlite_env 0 (init_manager, init_world)))"
  using sqlite_missing_raises [of init_manager 0 default_config never_env init_world]
    sqlite_missing_raises [of init_manager 0 default_config not_a_database_env init_world]
    sqlite_missing_raises [of init_manager 0 default_config sqlite_env init_world]
  by (simp add: init_manager_def never_env_def sqlite_env_def not_a_database_env_def
      default_config_def)

text \<open>
  On a fresh manager, with the path of the SQLite file there: when it is a directory,
  \<open>sqlite3.connect\<close> raises, and when it is a file that is not a database, the first
  \<open>PRAGMA\<close> raises. The call raises although the file exists.
\<close>

theorem sqlite_missing_raises_counterexample:
  "thread_local init_manager 0 = None
   \<and> path_exists directory_env (SQLITE_DB default_config)
   \<and> fst (get_sqlite_conn default_config directory_env 0 (init_manager, init_world)) =
       Inl (SqliteError ''connect'')
   \<and> path_exists not_a_database_env (SQLITE_DB default_config)
   \<and> fst (get_sqlite_conn default_config not_a_database_env 0 (init_manager, init_world)) =
       Inl (SqliteError ''PRAGMA journal_mode=WAL'')"
  by (simp add: get_sqlite_conn_eq open_error_def init_manager_def directory_env_def
      not_a_database_env_def sqlite_env_def default_config_def)

section \<open>The cursor context manager\<close>

text \<open>
  C9. When the thread's connection is there (cached or newly opened), \<open>get_sqlite_cursor\<close>
  opens one cursor on it and closes that cursor as the last thing it does, whether the
  body completes, leaves early or raises; the exception of the body is the result in the
  last case. The call adds no \<open>close\<close> of a connection to the log, the thread's slot holds the
  connection afterwards, and a later \<open>_get_sqlite_conn\<close> of the same thread returns it
  without opening anything.
\<close>

theorem cursor_closed_on_every_exit:
  assumes "get_sqlite_conn cfg env t (s, w) = (Inr conn, s1, w1)"
  shows "get_sqlite_cursor cfg env t body (s, w) =
       ((case body (next_id w1) of Throws e \<Rightarrow> Inl e | x \<Rightarrow> Inr x), s1,
        w1\<lparr>next_id := Suc (next_id w1),
           events := events w1 @ [CursorOpen conn (next_id w1), CursorClose (next_id w1)]\<rparr>)
     \<and> conn_closes (events w1 @ [CursorOpen conn (next_id w1), CursorClose (next_id w1)]) =
         conn_closes (events w)
     \<and> thread_local s1 t = Some conn
     \<and> get_sqlite_conn cfg env2 t (s1, w2) = (Inr conn, s1, w2)"
proof -
  have slot: "thread_local s1 t = Some conn"
    using assms by (auto simp: get_sqlite_conn_eq split: option.splits if_splits)
  have log: "conn_closes (events w1 @ [CursorOpen conn (next_id w1), CursorClose (next_id w1)]) =
      conn_closes (events w)"
    using assms
    by (auto simp: get_sqlite_conn_eq conn_closes_append split: option.splits if_splits)
  have "get_sqlite_cursor cfg env t body (s, w) =
       ((case body (next_id w1) of Throws e \<Rightarrow> Inl e | x \<Rightarrow> Inr x), s1,
        w1\<lparr>next_id := Suc (next_id w1),
           events := events w1 @ [CursorOpen conn (next_id w1), CursorClose (next_id w1)]\<rparr>)"
    using assms
    by (simp add: get_sqlite_cursor_def new_id_def emit_def split: body_exit.splits)
  with slot log show ?thesis
    by (simp add: get_sqlite_conn_eq)
qed

theorem cursor_closed_on_every_exit_witness:
  "get_sqlite_conn default_config sqlite_env 0 (init_manager, init_world) =
      (Inr 0,
       init_manager\<lparr>thread_local := (thread_local init_manager)(0 \<mapsto> 0), sqlite_conns := [0],
         backend_type := Some ''sqlite''\<rparr>,
       \<lparr>next_id = 1,
        events = [SqliteOpen 0, Acquire SqliteConnsLock, Release SqliteConnsLock]\<rparr>)
   \<and> get_sqlite_cursor default_config sqlite_env 0 body_raises (init_manager, init_world) =
      (Inl (Raised ''no such table''),
       init_manager\<lparr>thread_local := (thread_local init_manager)(0 \<mapsto> 0), sqlite_conns := [0],
         backend_type := Some ''sqlite''\<rparr>,
       \<lparr>next_id = 2,
        events = [SqliteOpen 0, Acquire SqliteConnsLock, Release SqliteConnsLock,
                  CursorOpen 0 1, CursorClose 1]\<rparr>)"
  using cursor_closed_on_every_exit [of default_config sqlite_env 0 init_manager init_world 0
      "init_manager\<lparr>thread_local := (thread_local init_manager)(0 \<mapsto> 0), sqlite_conns := [0],
         backend_type := Some ''sqlite''\<rparr>"
      "\<lparr>next_id = 1,
        events = [SqliteOpen 0, Acquire SqliteConnsLock, Release SqliteConnsLock]\<rparr>"
      body_raises]
  by (simp add: get_sqlite_conn_eq open_error_def init_manager_def init_world_def sqlite_env_def
      default_config_def body_raises_def)

section \<open>Shutdown\<close>

lemma close_conns_events:
  "close_conns env cs w = w\<lparr>events := events w @ map ConnClose cs\<rparr>"
  by (induction cs arbitrary: w) (simp_all add: conn_close_def emit_def)

lemma conn_closes_map: "conn_closes (map ConnClose cs) = cs"
  by (induction cs) simp_all

lemma close_all_eq:
  "close_all env (s, w) =
     (s\<lparr>sqlite_conns := [], ch_client := None, ch_available := None, initialized := False\<rparr>,
      w\<lparr>events := events w @ [Acquire SqliteConnsLock] @ map ConnClose (sqlite_conns s)
         @ [Release SqliteConnsLock] @ client_close_log env (ch_client s)\<rparr>)"
  by (cases "ch_client s")
     (simp_all add: close_all_def close_conns_events close_client_def client_close_log_def
        emit_def Let_def)

text \<open>
  C7, as the code has it. \<open>close_all\<close> calls \<open>close\<close> on every tracked connection, in the
  order of the list and whichever of the calls raise, empties the list, calls \<open>close\<close>
  (or \<open>disconnect\<close>, for a client without \<open>close\<close>) on the cached client if there is
  one, and sets \<open>_ch_client\<close> and \<open>_ch_available\<close> to \<open>None\<close> and \<open>_initialized\<close> to
  \<open>False\<close>. A second \<open>close_all\<close> leaves the manager as the first left it and calls no
  \<open>close\<close>.
\<close>

theorem close_all_effect:
  "close_all env (s, w) =
     (s\<lparr>sqlite_conns := [], ch_client := None, ch_available := None, initialized := False\<rparr>,
      w\<lparr>events := events w @ [Acquire SqliteConnsLock] @ map ConnClose (sqlite_conns s)
         @ [Release SqliteConnsLock] @ client_close_log env (ch_client s)\<rparr>)
   \<and> conn_closes ([Acquire SqliteConnsLock] @ map ConnClose (sqlite_conns s)
         @ [Release SqliteConnsLock] @ client_close_log env (ch_client s)) = sqlite_conns s
   \<and> close_all env2 (close_all env (s, w)) =
       (fst (close_all env (s, w)),
        (snd (close_all env (s, w)))\<lparr>events := events (snd (close_all env (s, w)))
           @ [Acquire SqliteConnsLock, Release SqliteConnsLock]\<rparr>)"
proof -
  have "conn_closes (client_close_log env (ch_client s)) = []"
    by (simp add: client_close_log_def split: option.splits)
  then have "conn_closes ([Acquire SqliteConnsLock] @ map ConnClose (sqlite_conns s)
         @ [Release SqliteConnsLock] @ client_close_log env (ch_client s)) = sqlite_conns s"
    by (simp add: conn_closes_append conn_closes_map)
  then show ?thesis
    by (simp add: close_all_eq client_close_log_def)
qed

text \<open>
  After a thread has opened its connection and the date range has been fetched,
  \<open>close_all\<close> leaves the thread's slot, \<open>_backend_type\<close> and the cached date range as they
  were, not as \<open>__init__\<close> sets them.
\<close>

theorem close_all_effect_counterexample:
  "thread_local after_shutdown 0 = Some 0 \<and> thread_local init_manager 0 = None
   \<and> backend_type after_shutdown = Some ''sqlite'' \<and> backend_type init_manager = None
   \<and> date_range_cache after_shutdown = range_2017 \<and> date_range_cache init_manager = PNone
   \<and> date_range_ts after_shutdown = 5 \<and> date_range_ts init_manager = 0
   \<and> after_shutdown \<noteq> init_manager"
proof -
  have eq: "after_shutdown =
      init_manager\<lparr>thread_local := (thread_local init_manager)(0 \<mapsto> 0),
        backend_type := Some ''sqlite'', date_range_cache := range_2017, date_range_ts := 5,
        initialized := False\<rparr>"
    by (simp add: after_shutdown_def get_sqlite_conn_eq open_error_def close_all_eq get_date_range_cached_def
        init_manager_def init_world_def sqlite_env_def at_time_def default_config_def
        fetch_range_def range_2017_def emit_def)
  show ?thesis
    unfolding eq by (simp add: init_manager_def range_2017_def)
qed

section \<open>The stages of \<open>get_connection\<close>\<close>

lemma try_clickhouse_all_fail:
  assumes "\<forall>k. \<not> connect_ok env k"
  shows "try_clickhouse_with_retry cfg env (s, w) =
     (False, s\<lparr>ch_available := Some False\<rparr>,
      w\<lparr>events := events w @
        backoff_log 1 (CH_MAX_RETRIES cfg) (CH_RETRY_BASE_DELAY cfg) (CH_RETRY_BACKOFF cfg)\<rparr>)"
  by (simp add: try_clickhouse_with_retry_def retry_loop_all_fail[OF assms])

lemma retry_loop_cases:
  "retry_loop cfg env ks d (s, w) = (ok, s', w') \<Longrightarrow>
     (ok \<and> (\<exists>k\<in>set ks. connect_ok env k)
        \<and> s' = s\<lparr>ch_client := Some (next_id w), ch_available := Some True,
                 backend_type := Some ''clickhouse''\<rparr>
        \<and> next_id w' = Suc (next_id w))
   \<or> (\<not> ok \<and> (\<forall>k\<in>set ks. \<not> connect_ok env k) \<and> s' = s \<and> next_id w' = next_id w)"
proof (induction ks arbitrary: d w)
  case Nil
  then show ?case by simp
next
  case (Cons k ks)
  show ?case
  proof (cases "connect_ok env k")
    case True
    then show ?thesis
      using Cons.prems by (auto simp: new_id_def emit_def Let_def)
  next
    case False
    show ?thesis
    proof (cases "k < CH_MAX_RETRIES cfg")
      case True
      with False Cons.prems
      have "retry_loop cfg env ks (d * CH_RETRY_BACKOFF cfg)
              (s, emit (Sleep d) (emit (Attempt k) w)) = (ok, s', w')"
        by (simp add: Let_def)
      from Cons.IH[OF this] False show ?thesis by (simp add: emit_def)
    next
      case nl: False
      with False Cons.prems
      have "retry_loop cfg env ks d (s, emit (Attempt k) w) = (ok, s', w')"
        by (simp add: Let_def)
      from Cons.IH[OF this] False show ?thesis by (simp add: emit_def)
    qed
  qed
qed

lemma try_clickhouse_cases:
  assumes "try_clickhouse_with_retry cfg env (s, w) = (ok, s', w')"
  shows "(ok \<and> (\<exists>k\<in>{1..CH_MAX_RETRIES cfg}. connect_ok env k)
        \<and> s' = s\<lparr>ch_client := Some (next_id w), ch_available := Some True,
                 backend_type := Some ''clickhouse''\<rparr>
        \<and> next_id w' = Suc (next_id w))
   \<or> (\<not> ok \<and> (\<forall>k\<in>{1..CH_MAX_RETRIES cfg}. \<not> connect_ok env k)
        \<and> s' = s\<lparr>ch_available := Some False\<rparr> \<and> next_id w' = next_id w)"
proof -
  obtain ok0 s0 w0 where r: "retry_loop cfg env [1..CH_MAX_RETRIES cfg] (CH_RETRY_BASE_DELAY cfg) (s, w)
      = (ok0, s0, w0)"
    by (metis prod_cases3)
  from retry_loop_cases[OF r] r assms show ?thesis
    by (auto simp: try_clickhouse_with_retry_def)
qed

lemma heartbeat_stage_skip:
  "ch_available s \<noteq> Some True \<Longrightarrow> heartbeat_stage env (s, w) = (None, s, w)"
  by (simp add: heartbeat_stage_def)

lemma heartbeat_stage_ok:
  "ch_available s = Some True \<Longrightarrow> ch_client s = Some c \<Longrightarrow> heartbeat_ok env \<Longrightarrow>
     heartbeat_stage env (s, w) = (Some (Primary (Some c), False), s, emit (Heartbeat c) w)"
  by (simp add: heartbeat_stage_def)


lemma reconnect_stage_skip:
  "ch_available s \<noteq> None \<Longrightarrow> reconnect_stage cfg env (s, w) = (None, s, w)"
  by (auto simp: reconnect_stage_def)

lemma get_connection_unavailable:
  assumes "ch_available s = Some False"
  shows "get_connection cfg env t (s, w) =
     (case get_sqlite_conn cfg env t (s, w) of
        (Inl e, s3, w3) \<Rightarrow> (Inl e, s3, w3)
      | (Inr conn, s3, w3) \<Rightarrow> (Inr (Fallback conn, True), s3, w3))"
  using assms by (simp add: get_connection_def heartbeat_stage_skip reconnect_stage_skip)

lemma reconnect_stage_cases:
  assumes "ch_available s = None" and "reconnect_stage cfg env (s, w) = (r, s', w')"
  shows "(r = Some (Primary (Some (next_id w)), False)
        \<and> (\<exists>k\<in>{1..CH_MAX_RETRIES cfg}. connect_ok env k)
        \<and> s' = s\<lparr>ch_client := Some (next_id w), ch_available := Some True,
                 backend_type := Some ''clickhouse''\<rparr>
        \<and> next_id w' = Suc (next_id w))
   \<or> (r = None \<and> (\<forall>k\<in>{1..CH_MAX_RETRIES cfg}. \<not> connect_ok env k)
        \<and> s' = s\<lparr>ch_available := Some False\<rparr> \<and> next_id w' = next_id w)"
proof -
  obtain ok s1 w1 where t: "try_clickhouse_with_retry cfg env (s, emit (Acquire ChLock) w) = (ok, s1, w1)"
    by (metis prod_cases3)
  from try_clickhouse_cases[OF t] t assms show ?thesis
    by (auto simp: reconnect_stage_def emit_def)
qed

section \<open>What every sequence of calls keeps\<close>

lemma consistent_init: "consistent (init_manager, init_world)"
  by (simp add: consistent_def init_manager_def)

lemma consistent_get_sqlite_conn:
  assumes "consistent (s, w)"
  shows "consistent (snd (get_sqlite_conn cfg env t (s, w)))"
proof (cases "thread_local s t")
  case (Some c)
  with assms show ?thesis by (simp add: get_sqlite_conn_eq)
next
  case None
  show ?thesis
  proof (cases "open_error cfg env")
    case (Some e)
    have "consistent (s, w\<lparr>next_id := Suc (next_id w), events := es\<rparr>)" for es
      using assms by (auto simp: consistent_def less_Suc_eq)
    with None Some assms show ?thesis by (simp add: get_sqlite_conn_eq)
  next
    case ok: None
    have fresh: "\<And>u c. thread_local s u = Some c \<Longrightarrow> c < next_id w"
      using assms by (auto simp: consistent_def)
    have inj: "\<And>u v c. thread_local s u = Some c \<Longrightarrow> thread_local s v = Some c \<Longrightarrow> u = v"
      using assms by (auto simp: consistent_def)
    have cl: "\<And>c. ch_client s = Some c \<Longrightarrow> c < next_id w"
      using assms by (auto simp: consistent_def)
    have av: "ch_available s = Some True \<Longrightarrow> ch_client s \<noteq> None"
      using assms by (auto simp: consistent_def)
    let ?s = "s\<lparr>thread_local := (thread_local s)(t \<mapsto> next_id w),
               sqlite_conns := sqlite_conns s @ [next_id w],
               backend_type := Some ''sqlite''\<rparr>"
    let ?w = "w\<lparr>next_id := Suc (next_id w),
               events := events w @
                 [SqliteOpen (next_id w), Acquire SqliteConnsLock, Release SqliteConnsLock]\<rparr>"
    have res: "snd (get_sqlite_conn cfg env t (s, w)) = (?s, ?w)"
      using None ok by (simp add: get_sqlite_conn_eq)
    have 1: "\<forall>u c. thread_local ?s u = Some c \<longrightarrow> c < next_id ?w"
      using fresh by (auto simp: less_Suc_eq split: if_splits)
    have 2: "\<forall>u v c. thread_local ?s u = Some c \<and> thread_local ?s v = Some c \<longrightarrow> u = v"
      using fresh inj by (auto split: if_splits)
    have 3: "\<forall>c. ch_client ?s = Some c \<longrightarrow> c < next_id ?w"
      using cl by (auto simp: less_Suc_eq)
    have 4: "ch_available ?s = Some True \<longrightarrow> ch_client ?s \<noteq> None"
      using av by simp
    from 1 2 3 4 show ?thesis
      unfolding res consistent_def by blast
  qed
qed

lemma consistent_heartbeat_stage:
  assumes "consistent (s, w)"
  shows "consistent (snd (heartbeat_stage env (s, w)))"
  using assms by (auto simp: heartbeat_stage_def consistent_def emit_def Let_def)

lemma consistent_reconnect_stage:
  assumes "consistent (s, w)"
  shows "consistent (snd (reconnect_stage cfg env (s, w)))"
proof (cases "ch_available s = None")
  case False
  with assms show ?thesis by (simp add: reconnect_stage_skip)
next
  case True
  obtain r s' w' where e: "reconnect_stage cfg env (s, w) = (r, s', w')"
    by (metis prod_cases3)
  from reconnect_stage_cases[OF True e]
  have "consistent (s', w')"
  proof (elim disjE conjE)
    assume "s' = s\<lparr>ch_client := Some (next_id w), ch_available := Some True,
        backend_type := Some ''clickhouse''\<rparr>" and "next_id w' = Suc (next_id w)"
    with assms show ?thesis by (auto simp: consistent_def less_Suc_eq)
  next
    assume "s' = s\<lparr>ch_available := Some False\<rparr>" and "next_id w' = next_id w"
    with assms show ?thesis by (auto simp: consistent_def)
  qed
  with e show ?thesis by simp
qed

lemma consistent_get_connection:
  assumes "consistent sw"
  shows "consistent (snd (get_connection cfg env t sw))"
proof -
  obtain r1 s1 w1 where h: "heartbeat_stage env sw = (r1, s1, w1)"
    by (metis prod_cases3)
  have wf1: "consistent (s1, w1)"
    using consistent_heartbeat_stage[of "fst sw" "snd sw" env] assms h by simp
  obtain r2 s2 w2 where r: "reconnect_stage cfg env (s1, w1) = (r2, s2, w2)"
    by (metis prod_cases3)
  have wf2: "consistent (s2, w2)"
    using consistent_reconnect_stage[OF wf1, of cfg env] r by simp
  obtain r3 s3 w3 where g: "get_sqlite_conn cfg env t (s2, w2) = (r3, s3, w3)"
    by (metis prod_cases3)
  have wf3: "consistent (s3, w3)"
    using consistent_get_sqlite_conn[OF wf2, of cfg env t] g by simp
  show ?thesis
    using h r g wf1 wf2 wf3
    by (auto simp: get_connection_def split: option.splits sum.splits)
qed

lemma consistent_get_sqlite_cursor:
  assumes "consistent sw"
  shows "consistent (snd (get_sqlite_cursor cfg env t body sw))"
proof -
  obtain r s1 w1 where g: "get_sqlite_conn cfg env t sw = (r, s1, w1)"
    by (metis prod_cases3)
  have wf1: "consistent (s1, w1)"
    using consistent_get_sqlite_conn[of "fst sw" "snd sw" cfg env t] assms g by simp
  then have "consistent (s1, w1\<lparr>next_id := Suc (next_id w1), events := es\<rparr>)" for es
    by (auto simp: consistent_def less_Suc_eq)
  with wf1 g show ?thesis
    by (auto simp: get_sqlite_cursor_def new_id_def emit_def Let_def
        split: sum.splits body_exit.splits)
qed

lemma consistent_get_date_range_cached:
  assumes "consistent sw"
  shows "consistent (snd (get_date_range_cached env f db b sw))"
  using assms
  by (cases sw) (auto simp: get_date_range_cached_def consistent_def emit_def Let_def split: sum.splits)

lemma consistent_close_all:
  assumes "consistent sw"
  shows "consistent (close_all env sw)"
  using assms by (cases sw) (auto simp: close_all_eq consistent_def)

lemma consistent_step: "consistent sw \<Longrightarrow> consistent (step cfg x sw)"
  by (cases x; cases sw)
     (simp_all add: consistent_get_connection consistent_get_sqlite_conn
        consistent_get_sqlite_cursor consistent_get_date_range_cached consistent_close_all)

lemma consistent_run: "consistent sw \<Longrightarrow> consistent (run cfg xs sw)"
  by (induction xs arbitrary: sw) (simp_all add: consistent_step)

lemma run_append: "run cfg (xs @ ys) sw = run cfg ys (run cfg xs sw)"
  by (induction xs arbitrary: sw) simp_all

lemma get_sqlite_conn_slot:
  "get_sqlite_conn cfg env t (s, w) = (Inr c, s', w') \<Longrightarrow> thread_local s' t = Some c"
  by (auto simp: get_sqlite_conn_eq split: option.splits if_splits)

lemma get_sqlite_conn_keeps_slot:
  "thread_local s u = Some c \<Longrightarrow> thread_local (fst (snd (get_sqlite_conn cfg env t (s, w)))) u = Some c"
  by (auto simp: get_sqlite_conn_eq split: option.splits)

lemma heartbeat_stage_thread_local:
  "thread_local (fst (snd (heartbeat_stage env (s, w)))) = thread_local s"
  by (simp add: heartbeat_stage_def Let_def)

lemma reconnect_stage_thread_local:
  "thread_local (fst (snd (reconnect_stage cfg env (s, w)))) = thread_local s"
proof (cases "ch_available s = None")
  case False
  then show ?thesis by (simp add: reconnect_stage_skip)
next
  case True
  obtain r s' w' where e: "reconnect_stage cfg env (s, w) = (r, s', w')"
    by (metis prod_cases3)
  from reconnect_stage_cases[OF True e] e show ?thesis by auto
qed

lemma get_connection_keeps_slot:
  assumes "thread_local s u = Some c"
  shows "thread_local (fst (snd (get_connection cfg env t (s, w)))) u = Some c"
proof -
  obtain r1 s1 w1 where h: "heartbeat_stage env (s, w) = (r1, s1, w1)"
    by (metis prod_cases3)
  have 1: "thread_local s1 u = Some c"
    using heartbeat_stage_thread_local[of env s w] h assms by simp
  obtain r2 s2 w2 where r: "reconnect_stage cfg env (s1, w1) = (r2, s2, w2)"
    by (metis prod_cases3)
  have 2: "thread_local s2 u = Some c"
    using reconnect_stage_thread_local[of cfg env s1 w1] r 1 by simp
  obtain r3 s3 w3 where g: "get_sqlite_conn cfg env t (s2, w2) = (r3, s3, w3)"
    by (metis prod_cases3)
  have 3: "thread_local s3 u = Some c"
    using get_sqlite_conn_keeps_slot[OF 2, of cfg env t w2] g by simp
  show ?thesis
    using h r g 1 2 3
    by (auto simp: get_connection_def split: option.splits sum.splits)
qed

lemma get_connection_fallback_slot:
  assumes "get_connection cfg env t (s, w) = (Inr (Fallback c, b), s', w')"
  shows "thread_local s' t = Some c"
proof -
  obtain r1 s1 w1 where h: "heartbeat_stage env (s, w) = (r1, s1, w1)"
    by (metis prod_cases3)
  obtain r2 s2 w2 where r: "reconnect_stage cfg env (s1, w1) = (r2, s2, w2)"
    by (metis prod_cases3)
  have p1: "r1 = None \<or> (\<exists>x. r1 = Some (Primary x, False))"
    using h by (auto simp: heartbeat_stage_def Let_def split: if_splits)
  have p2: "r2 = None \<or> (\<exists>x. r2 = Some (Primary x, False))"
    using r by (auto simp: reconnect_stage_def Let_def split: if_splits prod.splits bool.splits)
  from assms h r p1 p2 have "get_sqlite_conn cfg env t (s2, w2) = (Inr c, s', w')"
    by (auto simp: get_connection_def split: option.splits sum.splits prod.splits)
  then show ?thesis by (rule get_sqlite_conn_slot)
qed

lemma step_keeps_slot:
  assumes "thread_local (fst sw) u = Some c"
  shows "thread_local (fst (step cfg x sw)) u = Some c"
proof (cases sw)
  case (Pair s w)
  with assms have a: "thread_local s u = Some c" by simp
  show ?thesis
  proof (cases x)
    case (GetConnection t env)
    with Pair get_connection_keeps_slot[OF a] show ?thesis by simp
  next
    case (GetSqliteConn t env)
    with Pair get_sqlite_conn_keeps_slot[OF a] show ?thesis by simp
  next
    case (GetSqliteCursor t env body)
    obtain r s1 w1 where g: "get_sqlite_conn cfg env t (s, w) = (r, s1, w1)"
      by (metis prod_cases3)
    with get_sqlite_conn_keeps_slot[OF a, of cfg env t w] have "thread_local s1 u = Some c"
      by simp
    with g GetSqliteCursor Pair show ?thesis
      by (auto simp: get_sqlite_cursor_def new_id_def Let_def
          split: sum.splits body_exit.splits)
  next
    case (GetDateRange env f db b)
    with Pair a show ?thesis
      by (auto simp: get_date_range_cached_def Let_def split: sum.splits)
  next
    case (CloseAll env)
    with Pair a show ?thesis by (simp add: close_all_eq)
  qed
qed

lemma run_keeps_slot:
  "thread_local (fst sw) u = Some c \<Longrightarrow> thread_local (fst (run cfg xs sw)) u = Some c"
  by (induction xs arbitrary: sw) (simp_all add: step_keeps_slot)

lemma received_slot:
  assumes "received cfg x sw = Some (t, c)"
  shows "thread_local (fst (step cfg x sw)) t = Some c"
proof (cases sw)
  case (Pair s w)
  show ?thesis
  proof (cases x)
    case (GetConnection u env)
    obtain r s' w' where g: "get_connection cfg env u (s, w) = (r, s', w')"
      by (metis prod_cases3)
    with assms GetConnection Pair have "u = t" "\<exists>b. r = Inr (Fallback c, b)"
      by (auto split: sum.splits handle.splits)
    with g get_connection_fallback_slot[of cfg env t s w c _ s' w'] GetConnection Pair
    show ?thesis by auto
  next
    case (GetSqliteConn u env)
    obtain r s' w' where g: "get_sqlite_conn cfg env u (s, w) = (r, s', w')"
      by (metis prod_cases3)
    with assms GetSqliteConn Pair have "u = t" "r = Inr c"
      by (auto split: sum.splits)
    with g get_sqlite_conn_slot[of cfg env t s w c s' w'] GetSqliteConn Pair
    show ?thesis by auto
  qed (use assms in simp_all)
qed

section \<open>One connection per thread\<close>

text \<open>
  C6. In every history of calls on the manager, starting from the fresh manager: when a
  call hands the SQLite connection \<open>c1\<close> to thread \<open>t1\<close> and a later call hands the SQLite
  connection \<open>c2\<close> to thread \<open>t2\<close>, whether through \<open>_get_sqlite_conn\<close> or through
  \<open>get_connection\<close>, then \<open>c1\<close> and \<open>c2\<close> are the same connection exactly when \<open>t1\<close>
  and \<open>t2\<close> are the same thread.
\<close>

theorem one_connection_per_thread:
  assumes "received cfg x1 (run cfg ops1 (init_manager, init_world)) = Some (t1, c1)"
    and "received cfg x2 (run cfg (ops1 @ x1 # ops2) (init_manager, init_world)) = Some (t2, c2)"
  shows "(c1 = c2) = (t1 = t2)"
proof -
  let ?sw1 = "run cfg ops1 (init_manager, init_world)"
  let ?sw2 = "run cfg ops2 (step cfg x1 ?sw1)"
  let ?sw3 = "step cfg x2 ?sw2"
  have r: "run cfg (ops1 @ x1 # ops2) (init_manager, init_world) = ?sw2"
    by (simp add: run_append)
  have "thread_local (fst (step cfg x1 ?sw1)) t1 = Some c1"
    using assms(1) by (rule received_slot)
  then have "thread_local (fst ?sw2) t1 = Some c1"
    by (rule run_keeps_slot)
  then have s1: "thread_local (fst ?sw3) t1 = Some c1"
    by (rule step_keeps_slot)
  have s2: "thread_local (fst ?sw3) t2 = Some c2"
    using assms(2) unfolding r by (rule received_slot)
  have "consistent ?sw3"
    by (intro consistent_step consistent_run consistent_init)
  then have inj: "\<And>t u c. thread_local (fst ?sw3) t = Some c \<Longrightarrow>
      thread_local (fst ?sw3) u = Some c \<Longrightarrow> t = u"
    unfolding consistent_def by (auto simp: split_beta)
  show ?thesis
  proof
    assume "c1 = c2"
    with s1 s2 inj show "t1 = t2" by blast
  next
    assume "t1 = t2"
    with s1 s2 show "c1 = c2" by simp
  qed
qed

text \<open>
  Thread 0 gets connection 0 from \<open>_get_sqlite_conn\<close>; after thread 1 has used a cursor
  and the manager has been shut down, thread 1 gets connection 1 from \<open>get_connection\<close>
  and thread 0 gets connection 0 again.
\<close>

theorem one_connection_per_thread_witness:
  "received default_config (GetSqliteConn 0 sqlite_env)
      (run default_config [] (init_manager, init_world)) = Some (0, 0)
   \<and> received default_config (GetConnection 1 sqlite_env)
      (run default_config
         ([] @ GetSqliteConn 0 sqlite_env # [GetSqliteCursor 1 sqlite_env body_raises,
            CloseAll sqlite_env])
         (init_manager, init_world)) = Some (1, 1)
   \<and> received default_config (GetConnection 0 sqlite_env)
      (run default_config
         ([] @ GetSqliteConn 0 sqlite_env # [GetSqliteCursor 1 sqlite_env body_raises,
            CloseAll sqlite_env])
         (init_manager, init_world)) = Some (0, 0)"
proof -
  have st: "run default_config
         ([] @ GetSqliteConn 0 sqlite_env # [GetSqliteCursor 1 sqlite_env body_raises,
            CloseAll sqlite_env])
         (init_manager, init_world) =
      (init_manager\<lparr>thread_local := (thread_local init_manager)(0 \<mapsto> 0, 1 \<mapsto> 1),
         backend_type := Some ''sqlite'', initialized := False\<rparr>,
       \<lparr>next_id = 3,
        events = [SqliteOpen 0, Acquire SqliteConnsLock, Release SqliteConnsLock,
          SqliteOpen 1, Acquire SqliteConnsLock, Release SqliteConnsLock,
          CursorOpen 1 2, CursorClose 2,
          Acquire SqliteConnsLock, ConnClose 0, ConnClose 1, Release SqliteConnsLock]\<rparr>)"
    by (simp add: get_sqlite_conn_eq open_error_def get_sqlite_cursor_def close_all_eq new_id_def emit_def
        client_close_log_def body_raises_def init_manager_def init_world_def sqlite_env_def
        default_config_def)
  have a: "received default_config (GetSqliteConn 0 sqlite_env)
      (run default_config [] (init_manager, init_world)) = Some (0, 0)"
    by (simp add: get_sqlite_conn_eq open_error_def init_manager_def init_world_def sqlite_env_def
        default_config_def)
  have unav: "try_clickhouse_with_retry default_config sqlite_env (s, w) =
     (False, s\<lparr>ch_available := Some False\<rparr>,
      w\<lparr>events := events w @
        backoff_log 1 (CH_MAX_RETRIES default_config) (CH_RETRY_BASE_DELAY default_config)
          (CH_RETRY_BACKOFF default_config)\<rparr>)" for s w
    by (rule try_clickhouse_all_fail) (simp add: sqlite_env_def)
  have b: "received default_config (GetConnection 1 sqlite_env)
      (run default_config
         ([] @ GetSqliteConn 0 sqlite_env # [GetSqliteCursor 1 sqlite_env body_raises,
            CloseAll sqlite_env])
         (init_manager, init_world)) = Some (1, 1)"
    unfolding st
    by (simp add: get_connection_def heartbeat_stage_def reconnect_stage_def unav emit_def
        get_sqlite_conn_eq open_error_def init_manager_def)
  have c: "received default_config (GetConnection 0 sqlite_env)
      (run default_config
         ([] @ GetSqliteConn 0 sqlite_env # [GetSqliteCursor 1 sqlite_env body_raises,
            CloseAll sqlite_env])
         (init_manager, init_world)) = Some (0, 0)"
    unfolding st
    by (simp add: get_connection_def heartbeat_stage_def reconnect_stage_def unav emit_def
        get_sqlite_conn_eq open_error_def init_manager_def)
  from a b c
    one_connection_per_thread [of default_config "GetSqliteConn 0 sqlite_env" "[]" 0 0
      "GetConnection 1 sqlite_env"
      "[GetSqliteCursor 1 sqlite_env body_raises, CloseAll sqlite_env]" 1 1]
    one_connection_per_thread [of default_config "GetSqliteConn 0 sqlite_env" "[]" 0 0
      "GetConnection 0 sqlite_env"
      "[GetSqliteCursor 1 sqlite_env body_raises, CloseAll sqlite_env]" 0 0]
  show ?thesis by blast
qed

section \<open>The unavailable state\<close>

lemma get_sqlite_conn_ch_available:
  "ch_available (fst (snd (get_sqlite_conn cfg env t (s, w)))) = ch_available s"
  by (simp add: get_sqlite_conn_eq split: option.splits)

lemma get_connection_unavailable_eq:
  assumes "ch_available s = Some False"
  shows "get_connection cfg env t (s, w) =
     (case thread_local s t of
        Some c \<Rightarrow> (Inr (Fallback c, True), s, w)
      | None \<Rightarrow>
          (case open_error cfg env of
             Some e \<Rightarrow>
               (Inl e, s,
                if path_exists env (SQLITE_DB cfg) \<and> \<not> connect_raises env (SQLITE_DB cfg)
                then w\<lparr>next_id := Suc (next_id w),
                       events := events w @ [SqliteOpen (next_id w)]\<rparr>
                else w)
           | None \<Rightarrow>
               (Inr (Fallback (next_id w), True),
                s\<lparr>thread_local := (thread_local s)(t \<mapsto> next_id w),
                  sqlite_conns := sqlite_conns s @ [next_id w],
                  backend_type := Some ''sqlite''\<rparr>,
                w\<lparr>next_id := Suc (next_id w),
                  events := events w @
                    [SqliteOpen (next_id w), Acquire SqliteConnsLock,
                     Release SqliteConnsLock]\<rparr>)))"
  by (simp add: get_connection_unavailable[OF assms] get_sqlite_conn_eq split: option.splits)

lemma step_keeps_unavailable:
  assumes "ch_available (fst sw) = Some False" and "\<not> is_close_all x"
  shows "ch_available (fst (step cfg x sw)) = Some False"
proof (cases sw)
  case (Pair s w)
  with assms have a: "ch_available s = Some False" by simp
  show ?thesis
  proof (cases x)
    case (GetConnection t env)
    with Pair a show ?thesis
      by (simp add: get_connection_unavailable_eq split: option.splits)
  next
    case (GetSqliteConn t env)
    with Pair a get_sqlite_conn_ch_available[of cfg env t s w] show ?thesis by simp
  next
    case (GetSqliteCursor t env body)
    obtain r s1 w1 where g: "get_sqlite_conn cfg env t (s, w) = (r, s1, w1)"
      by (metis prod_cases3)
    with get_sqlite_conn_ch_available[of cfg env t s w] a have "ch_available s1 = Some False"
      by simp
    with g GetSqliteCursor Pair show ?thesis
      by (auto simp: get_sqlite_cursor_def new_id_def Let_def
          split: sum.splits body_exit.splits)
  next
    case (GetDateRange env f db b)
    with Pair a show ?thesis
      by (auto simp: get_date_range_cached_def Let_def split: sum.splits)
  next
    case (CloseAll env)
    with assms show ?thesis by simp
  qed
qed

lemma run_keeps_unavailable:
  "ch_available (fst sw) = Some False \<Longrightarrow> list_all (\<lambda>x. \<not> is_close_all x) xs \<Longrightarrow>
     ch_available (fst (run cfg xs sw)) = Some False"
  by (induction xs arbitrary: sw) (simp_all add: step_keeps_unavailable)

lemma backoff_log_defaults:
  "backoff_log 1 3 1 2 = [Attempt 1, Sleep 1, Attempt 2, Sleep 2, Attempt 3]"
  by (simp add: backoff_log_def upto.simps)

lemma down_state_eq:
  "down_state =
     (init_manager\<lparr>ch_available := Some False\<rparr>,
      \<lparr>next_id = 0,
       events = [Acquire ChLock, Attempt 1, Sleep 1, Attempt 2, Sleep 2, Attempt 3,
                 Release ChLock]\<rparr>)"
proof -
  have "\<forall>k. \<not> connect_ok never_env k" by (simp add: never_env_def)
  note try_clickhouse_all_fail[OF this, of default_config]
  then show ?thesis
    by (simp add: down_state_def get_connection_def heartbeat_stage_def reconnect_stage_def
        get_sqlite_conn_eq open_error_def emit_def init_manager_def init_world_def never_env_def
        default_config_def backoff_log_defaults)
qed

text \<open>
  C2, as the code has it. Once \<open>_ch_available\<close> is \<open>False\<close>, \<open>get_connection\<close> goes
  straight to the thread's SQLite connection: it returns the cached one, or, when the
  thread has none, opens, caches and returns a new one, or raises what opening raises:
  the exception of line 126 when the file is missing, else the error of
  \<open>sqlite3.connect\<close> or of the first \<open>PRAGMA\<close> statement that fails. In each case the
  call adds no attempt, sleep, heartbeat or use of the reconnect lock to the log and
  leaves \<open>_ch_available\<close> at \<open>False\<close>; so does every sequence of calls without
  \<open>close_all\<close>, and \<open>close_all\<close> sets it back to \<open>None\<close>.
\<close>

theorem unavailable_goes_to_fallback:
  assumes "ch_available s = Some False"
  shows "get_connection cfg env t (s, w) =
       (case thread_local s t of
          Some c \<Rightarrow> (Inr (Fallback c, True), s, w)
        | None \<Rightarrow>
            (case open_error cfg env of
               Some e \<Rightarrow>
                 (Inl e, s,
                  if path_exists env (SQLITE_DB cfg) \<and> \<not> connect_raises env (SQLITE_DB cfg)
                  then w\<lparr>next_id := Suc (next_id w),
                         events := events w @ [SqliteOpen (next_id w)]\<rparr>
                  else w)
             | None \<Rightarrow>
                 (Inr (Fallback (next_id w), True),
                  s\<lparr>thread_local := (thread_local s)(t \<mapsto> next_id w),
                    sqlite_conns := sqlite_conns s @ [next_id w],
                    backend_type := Some ''sqlite''\<rparr>,
                  w\<lparr>next_id := Suc (next_id w),
                    events := events w @
                      [SqliteOpen (next_id w), Acquire SqliteConnsLock,
                       Release SqliteConnsLock]\<rparr>)))
     \<and> filter touches_primary (events (snd (snd (get_connection cfg env t (s, w))))) =
         filter touches_primary (events w)
     \<and> ch_available (fst (snd (get_connection cfg env t (s, w)))) = Some False
     \<and> (list_all (\<lambda>x. \<not> is_close_all x) xs \<longrightarrow>
          ch_available (fst (run cfg xs (s, w))) = Some False)
     \<and> ch_available (fst (close_all env2 (s, w))) = None"
proof -
  note eq = get_connection_unavailable_eq[OF assms, of cfg env t w]
  have log: "filter touches_primary (events (snd (snd (get_connection cfg env t (s, w))))) =
         filter touches_primary (events w)"
    unfolding eq by (simp split: option.splits)
  have av: "ch_available (fst (snd (get_connection cfg env t (s, w)))) = Some False"
    unfolding eq using assms by (simp split: option.splits)
  have stay: "list_all (\<lambda>x. \<not> is_close_all x) xs \<longrightarrow>
          ch_available (fst (run cfg xs (s, w))) = Some False"
    using run_keeps_unavailable[of "(s, w)" xs cfg] assms by simp
  have reset: "ch_available (fst (close_all env2 (s, w))) = None"
    by (simp add: close_all_eq)
  from eq log av stay reset show ?thesis by blast
qed

text \<open>
  After the retries are exhausted, thread 1 is handed a new SQLite connection; with
  ClickHouse up again, further calls still leave the flag at \<open>False\<close>, and \<open>close_all\<close>
  resets it. When the file is not a database, the call of thread 1 raises the error of
  the first \<open>PRAGMA\<close>.
\<close>

theorem unavailable_goes_to_fallback_witness:
  "ch_available (fst down_state) = Some False
   \<and> get_connection default_config sqlite_env 1 down_state =
       (Inr (Fallback 0, True),
        init_manager\<lparr>ch_available := Some False,
          thread_local := (thread_local init_manager)(1 \<mapsto> 0), sqlite_conns := [0],
          backend_type := Some ''sqlite''\<rparr>,
        \<lparr>next_id = 1,
         events = [Acquire ChLock, Attempt 1, Sleep 1, Attempt 2, Sleep 2, Attempt 3,
                   Release ChLock, SqliteOpen 0, Acquire SqliteConnsLock,
                   Release SqliteConnsLock]\<rparr>)
   \<and> list_all (\<lambda>x. \<not> is_close_all x)
        [GetConnection 0 up_env, GetDateRange up_env fetch_range (Fallback 0) True]
   \<and> ch_available (fst (run default_config
        [GetConnection 0 up_env, GetDateRange up_env fetch_range (Fallback 0) True]
        down_state)) = Some False
   \<and> ch_available (fst (close_all up_env down_state)) = None
   \<and> fst (get_connection default_config not_a_database_env 1 down_state) =
       Inl (SqliteError ''PRAGMA journal_mode=WAL'')"
  using unavailable_goes_to_fallback [of "init_manager\<lparr>ch_available := Some False\<rparr>"
      default_config not_a_database_env 1
      "\<lparr>next_id = 0,
       events = [Acquire ChLock, Attempt 1, Sleep 1, Attempt 2, Sleep 2, Attempt 3,
                 Release ChLock]\<rparr>"
      "[]" up_env]
    unavailable_goes_to_fallback [of "init_manager\<lparr>ch_available := Some False\<rparr>"
      default_config sqlite_env 1
      "\<lparr>next_id = 0,
       events = [Acquire ChLock, Attempt 1, Sleep 1, Attempt 2, Sleep 2, Attempt 3,
                 Release ChLock]\<rparr>"
      "[GetConnection 0 up_env, GetDateRange up_env fetch_range (Fallback 0) True]" up_env]
  by (simp add: down_state_eq open_error_def init_manager_def sqlite_env_def
      not_a_database_env_def default_config_def)

text \<open>
  With ClickHouse down and no SQLite file, the call after the retries are exhausted
  raises: it returns no connection.
\<close>

theorem unavailable_goes_to_fallback_counterexample:
  "ch_available (fst down_state) = Some False
   \<and> fst (get_connection default_config never_env 0 down_state) =
       Inl (SqliteFileMissing ''ecommerce.db'')"
  by (simp add: down_state_eq get_connection_unavailable_eq open_error_def init_manager_def
      never_env_def default_config_def)

section \<open>A failed heartbeat\<close>




lemma try_clickhouse_first_ok:
  assumes "connect_ok env 1" and "1 \<le> CH_MAX_RETRIES cfg"
  shows "try_clickhouse_with_retry cfg env (s, w) =
     (True,
      s\<lparr>ch_client := Some (next_id w), ch_available := Some True,
        backend_type := Some ''clickhouse''\<rparr>,
      w\<lparr>next_id := Suc (next_id w), events := events w @ [Attempt 1]\<rparr>)"
proof -
  have "[1..CH_MAX_RETRIES cfg] = 1 # [2..CH_MAX_RETRIES cfg]"
    using assms(2) by (simp add: upto_rec1)
  then show ?thesis
    using assms(1) by (simp add: try_clickhouse_with_retry_def new_id_def emit_def)
qed





section \<open>Concurrent callers on a cold start\<close>

lemma cold_inv_start:
  assumes "ch_available s = None"
  shows "cold_inv cfg callers (cold_start s w callers)"
  using assms by (simp add: cold_inv_def cold_start_def)

lemma try_clickhouse_sets_flag:
  "try_clickhouse_with_retry cfg env (s, w) = (ok, s', w') \<Longrightarrow> ch_available s' \<noteq> None"
  by (drule try_clickhouse_cases) auto

lemma cold_invI:
  assumes "\<And>u. pcs g u \<notin> {L149, L152, L156, L158}"
    and "\<And>u. u \<notin> set callers \<Longrightarrow> pcs g u = Idle"
    and "\<And>u. pcs g u = L165 \<or> pcs g u = L166 \<Longrightarrow> ch_lock g = Some u"
    and "\<And>u. ch_lock g = Some u \<Longrightarrow> pcs g u = L165 \<or> pcs g u = L166"
    and "(ch_available (mgr g) = None) = (ran_retry g = [])"
    and "length (ran_retry g) \<le> 1"
    and "set (ran_retry g) \<subseteq> set callers"
    and "\<And>u. pcs g u = L166 \<Longrightarrow> ch_available (mgr g) = None"
    and "\<And>u. pcs g u = L170 \<or> finished (pcs g u) \<Longrightarrow> ch_available (mgr g) \<noteq> None"
    and "\<And>u r. pcs g u = Done r \<Longrightarrow> fallback_result cfg r \<or> u \<in> set (ran_retry g)"
  shows "cold_inv cfg callers g"
  unfolding cold_inv_def using assms by blast

lemma cold_inv_tstep:
  assumes inv: "cold_inv cfg callers g" and st: "tstep cfg env t g = Some g'"
  shows "cold_inv cfg callers g'"
proof -
  have i1: "\<And>u. pcs g u \<notin> {L149, L152, L156, L158}"
    and i2: "\<And>u. u \<notin> set callers \<Longrightarrow> pcs g u = Idle"
    and i3: "\<And>u. pcs g u = L165 \<or> pcs g u = L166 \<Longrightarrow> ch_lock g = Some u"
    and i4: "\<And>u. ch_lock g = Some u \<Longrightarrow> pcs g u = L165 \<or> pcs g u = L166"
    and i5: "(ch_available (mgr g) = None) = (ran_retry g = [])"
    and i6: "length (ran_retry g) \<le> 1"
    and i7: "set (ran_retry g) \<subseteq> set callers"
    and i8: "\<And>u. pcs g u = L166 \<Longrightarrow> ch_available (mgr g) = None"
    and i9: "\<And>u. pcs g u = L170 \<or> finished (pcs g u) \<Longrightarrow> ch_available (mgr g) \<noteq> None"
    and i10: "\<And>u r. pcs g u = Done r \<Longrightarrow> fallback_result cfg r \<or> u \<in> set (ran_retry g)"
    using inv unfolding cold_inv_def by blast+
  have live: "pcs g t \<noteq> Idle"
    using st by (auto simp: tstep_def)
  then have caller: "t \<in> set callers"
    using i2 by blast
  consider (a) "pcs g t = L163" | (b) "pcs g t = L164" | (c) "pcs g t = L165"
    | (d) "pcs g t = L166" | (e) "pcs g t = L170"
    using i1[of t] st by (cases "pcs g t") (auto simp: tstep_def)
  then show ?thesis
  proof cases
    case a
    let ?p = "if ch_available (mgr g) = None then L164 else L170"
    have g': "g' = g\<lparr>pcs := (pcs g)(t := ?p)\<rparr>"
      using st a by (simp add: tstep_def goto_def)
    have nl: "ch_lock g \<noteq> Some t"
      using i4[of t] a by auto
    show ?thesis
    proof (rule cold_invI)
      show "pcs g' u \<notin> {L149, L152, L156, L158}" for u
        using i1[of u] by (simp add: g')
      show "u \<notin> set callers \<Longrightarrow> pcs g' u = Idle" for u
        using i2[of u] caller by (auto simp: g')
      show "pcs g' u = L165 \<or> pcs g' u = L166 \<Longrightarrow> ch_lock g' = Some u" for u
        using i3[of u] by (auto simp: g' split: if_splits)
      show "ch_lock g' = Some u \<Longrightarrow> pcs g' u = L165 \<or> pcs g' u = L166" for u
        using i4[of u] nl by (auto simp: g')
      show "(ch_available (mgr g') = None) = (ran_retry g' = [])"
        using i5 by (simp add: g')
      show "length (ran_retry g') \<le> 1" using i6 by (simp add: g')
      show "set (ran_retry g') \<subseteq> set callers" using i7 by (simp add: g')
      show "pcs g' u = L166 \<Longrightarrow> ch_available (mgr g') = None" for u
        using i8[of u] by (auto simp: g' split: if_splits)
      show "pcs g' u = L170 \<or> finished (pcs g' u) \<Longrightarrow> ch_available (mgr g') \<noteq> None" for u
        using i9[of u] by (auto simp: g' split: if_splits)
      show "pcs g' u = Done r \<Longrightarrow> fallback_result cfg r \<or> u \<in> set (ran_retry g')" for u r
        using i10[of u r] by (auto simp: g' split: if_splits)
    qed
  next
    case b
    have free: "ch_lock g = None"
      using st b by (auto simp: tstep_def split: option.splits)
    have g': "g' = g\<lparr>ch_lock := Some t, wld := emit (Acquire ChLock) (wld g),
        pcs := (pcs g)(t := L165)\<rparr>"
      using st b free by (simp add: tstep_def goto_def record_event_def)
    show ?thesis
    proof (rule cold_invI)
      show "pcs g' u \<notin> {L149, L152, L156, L158}" for u
        using i1[of u] by (simp add: g')
      show "u \<notin> set callers \<Longrightarrow> pcs g' u = Idle" for u
        using i2[of u] caller by (auto simp: g')
      show "pcs g' u = L165 \<or> pcs g' u = L166 \<Longrightarrow> ch_lock g' = Some u" for u
        using i3[of u] free by (auto simp: g' split: if_splits)
      show "ch_lock g' = Some u \<Longrightarrow> pcs g' u = L165 \<or> pcs g' u = L166" for u
        by (auto simp: g')
      show "(ch_available (mgr g') = None) = (ran_retry g' = [])"
        using i5 by (simp add: g')
      show "length (ran_retry g') \<le> 1" using i6 by (simp add: g')
      show "set (ran_retry g') \<subseteq> set callers" using i7 by (simp add: g')
      show "pcs g' u = L166 \<Longrightarrow> ch_available (mgr g') = None" for u
        using i8[of u] by (auto simp: g' split: if_splits)
      show "pcs g' u = L170 \<or> finished (pcs g' u) \<Longrightarrow> ch_available (mgr g') \<noteq> None" for u
        using i9[of u] by (auto simp: g' split: if_splits)
      show "pcs g' u = Done r \<Longrightarrow> fallback_result cfg r \<or> u \<in> set (ran_retry g')" for u r
        using i10[of u r] by (auto simp: g' split: if_splits)
    qed
  next
    case c
    have held: "ch_lock g = Some t"
      using i3[of t] c by simp
    have others: "pcs g u \<noteq> L165 \<and> pcs g u \<noteq> L166" if "u \<noteq> t" for u
      using i3[of u] held that by auto
    show ?thesis
    proof (cases "ch_available (mgr g) = None")
      case True
      have g': "g' = g\<lparr>pcs := (pcs g)(t := L166)\<rparr>"
        using st c True by (simp add: tstep_def goto_def)
      show ?thesis
      proof (rule cold_invI)
        show "pcs g' u \<notin> {L149, L152, L156, L158}" for u
          using i1[of u] by (simp add: g')
        show "u \<notin> set callers \<Longrightarrow> pcs g' u = Idle" for u
          using i2[of u] caller by (auto simp: g')
        show "pcs g' u = L165 \<or> pcs g' u = L166 \<Longrightarrow> ch_lock g' = Some u" for u
          using i3[of u] held by (auto simp: g' split: if_splits)
        show "ch_lock g' = Some u \<Longrightarrow> pcs g' u = L165 \<or> pcs g' u = L166" for u
          using held by (auto simp: g')
        show "(ch_available (mgr g') = None) = (ran_retry g' = [])"
          using i5 by (simp add: g')
        show "length (ran_retry g') \<le> 1" using i6 by (simp add: g')
        show "set (ran_retry g') \<subseteq> set callers" using i7 by (simp add: g')
        show "pcs g' u = L166 \<Longrightarrow> ch_available (mgr g') = None" for u
          using True by (simp add: g')
        show "pcs g' u = L170 \<or> finished (pcs g' u) \<Longrightarrow> ch_available (mgr g') \<noteq> None" for u
          using i9[of u] by (auto simp: g' split: if_splits)
        show "pcs g' u = Done r \<Longrightarrow> fallback_result cfg r \<or> u \<in> set (ran_retry g')" for u r
          using i10[of u r] by (auto simp: g' split: if_splits)
      qed
    next
      case False
      have g': "g' = g\<lparr>ch_lock := None, wld := emit (Release ChLock) (wld g),
          pcs := (pcs g)(t := L170)\<rparr>"
        using st c False by (simp add: tstep_def goto_def record_event_def)
      show ?thesis
      proof (rule cold_invI)
        show "pcs g' u \<notin> {L149, L152, L156, L158}" for u
          using i1[of u] by (simp add: g')
        show "u \<notin> set callers \<Longrightarrow> pcs g' u = Idle" for u
          using i2[of u] caller by (auto simp: g')
        show "pcs g' u = L165 \<or> pcs g' u = L166 \<Longrightarrow> ch_lock g' = Some u" for u
          using others[of u] by (auto simp: g' split: if_splits)
        show "ch_lock g' = Some u \<Longrightarrow> pcs g' u = L165 \<or> pcs g' u = L166" for u
          by (simp add: g')
        show "(ch_available (mgr g') = None) = (ran_retry g' = [])"
          using i5 by (simp add: g')
        show "length (ran_retry g') \<le> 1" using i6 by (simp add: g')
        show "set (ran_retry g') \<subseteq> set callers" using i7 by (simp add: g')
        show "pcs g' u = L166 \<Longrightarrow> ch_available (mgr g') = None" for u
          using others[of u] by (auto simp: g' split: if_splits)
        show "pcs g' u = L170 \<or> finished (pcs g' u) \<Longrightarrow> ch_available (mgr g') \<noteq> None" for u
          using False by (simp add: g')
        show "pcs g' u = Done r \<Longrightarrow> fallback_result cfg r \<or> u \<in> set (ran_retry g')" for u r
          using i10[of u r] by (auto simp: g' split: if_splits)
      qed
    qed
  next
    case d
    obtain ok s1 w1 where r: "try_clickhouse_with_retry cfg env (mgr g, wld g) = (ok, s1, w1)"
      by (metis prod_cases3)
    have f: "ch_available s1 \<noteq> None"
      using r by (rule try_clickhouse_sets_flag)
    let ?p = "if ok then Done (Inr (Primary (ch_client s1), False)) else L170"
    have g': "g' = g\<lparr>mgr := s1, wld := emit (Release ChLock) w1, ch_lock := None,
        ran_retry := ran_retry g @ [t], pcs := (pcs g)(t := ?p)\<rparr>"
      using st d r by (auto simp: tstep_def goto_def record_event_def)
    have e: "ran_retry g = []"
      using i8[of t] i5 d by simp
    have held: "ch_lock g = Some t"
      using i3[of t] d by simp
    have others: "pcs g u \<noteq> L165 \<and> pcs g u \<noteq> L166" if "u \<noteq> t" for u
      using i3[of u] held that by auto
    have unknown: "ch_available (mgr g) = None"
      using i8[of t] d by simp
    show ?thesis
    proof (rule cold_invI)
      show "pcs g' u \<notin> {L149, L152, L156, L158}" for u
        using i1[of u] by (simp add: g')
      show "u \<notin> set callers \<Longrightarrow> pcs g' u = Idle" for u
        using i2[of u] caller by (auto simp: g')
      show "pcs g' u = L165 \<or> pcs g' u = L166 \<Longrightarrow> ch_lock g' = Some u" for u
        using others[of u] by (auto simp: g' split: if_splits)
      show "ch_lock g' = Some u \<Longrightarrow> pcs g' u = L165 \<or> pcs g' u = L166" for u
        by (simp add: g')
      show "(ch_available (mgr g') = None) = (ran_retry g' = [])"
        using f by (simp add: g')
      show "length (ran_retry g') \<le> 1" using e by (simp add: g')
      show "set (ran_retry g') \<subseteq> set callers" using e caller by (simp add: g')
      show "pcs g' u = L166 \<Longrightarrow> ch_available (mgr g') = None" for u
        using others[of u] by (auto simp: g' split: if_splits)
      show "pcs g' u = L170 \<or> finished (pcs g' u) \<Longrightarrow> ch_available (mgr g') \<noteq> None" for u
        using f by (simp add: g')
      show "pcs g' u = Done r \<Longrightarrow> fallback_result cfg r \<or> u \<in> set (ran_retry g')" for u r
        using i10[of u r] by (auto simp: g' split: if_splits)
    qed
  next
    case e
    obtain r s1 w1 where q: "get_sqlite_conn cfg env t (mgr g, wld g) = (r, s1, w1)"
      by (metis prod_cases3)
    have av: "ch_available s1 = ch_available (mgr g)"
      using get_sqlite_conn_ch_available[of cfg env t "mgr g" "wld g"] q by simp
    let ?r = "case r of Inl e \<Rightarrow> Inl e | Inr c \<Rightarrow> Inr (Fallback c, True)"
    have fr: "fallback_result cfg ?r"
      using q
      by (auto simp: get_sqlite_conn_eq dest: open_error_fallback_result
          split: option.splits if_splits)
    have g': "g' = g\<lparr>mgr := s1, wld := w1, pcs := (pcs g)(t := Done ?r)\<rparr>"
      using st e q by (auto simp: tstep_def goto_def split: sum.splits)
    have nl: "ch_lock g \<noteq> Some t"
      using i4[of t] e by auto
    have known: "ch_available (mgr g) \<noteq> None"
      using i9[of t] e by simp
    show ?thesis
    proof (rule cold_invI)
      show "pcs g' u \<notin> {L149, L152, L156, L158}" for u
        using i1[of u] by (simp add: g')
      show "u \<notin> set callers \<Longrightarrow> pcs g' u = Idle" for u
        using i2[of u] caller by (auto simp: g')
      show "pcs g' u = L165 \<or> pcs g' u = L166 \<Longrightarrow> ch_lock g' = Some u" for u
        using i3[of u] by (auto simp: g' split: if_splits)
      show "ch_lock g' = Some u \<Longrightarrow> pcs g' u = L165 \<or> pcs g' u = L166" for u
        using i4[of u] nl by (auto simp: g')
      show "(ch_available (mgr g') = None) = (ran_retry g' = [])"
        using i5 av by (simp add: g')
      show "length (ran_retry g') \<le> 1" using i6 by (simp add: g')
      show "set (ran_retry g') \<subseteq> set callers" using i7 by (simp add: g')
      show "pcs g' u = L166 \<Longrightarrow> ch_available (mgr g') = None" for u
        using i8[of u] av by (auto simp: g' split: if_splits)
      show "pcs g' u = L170 \<or> finished (pcs g' u) \<Longrightarrow> ch_available (mgr g') \<noteq> None" for u
        using known av by (simp add: g')
      show "pcs g' u = Done r' \<Longrightarrow> fallback_result cfg r' \<or> u \<in> set (ran_retry g')" for u r'
        using i10[of u r'] fr by (auto simp: g' split: if_splits)
    qed
  qed
qed

lemma cold_inv_sched:
  "cold_inv cfg callers g \<Longrightarrow> cold_inv cfg callers (sched cfg xs g)"
proof (induction xs arbitrary: g)
  case Nil
  then show ?case by simp
next
  case (Cons x xs)
  obtain t env where x: "x = (t, env)" by (cases x)
  show ?case
  proof (cases "tstep cfg env t g")
    case None
    with Cons x show ?thesis by simp
  next
    case (Some g1)
    with Cons.prems have "cold_inv cfg callers g1" by (simp add: cold_inv_tstep)
    with Cons.IH Some x show ?thesis by simp
  qed
qed

lemma two_callers_eq:
  "two_callers =
     \<lparr>mgr = init_manager, wld = \<lparr>next_id = 0, events = [Acquire ChLock]\<rparr>,
      ch_lock = Some 0,
      pcs = (\<lambda>t. if t \<in> set [0, 1] then L163 else Idle)(0 := L166, 1 := L164),
      ran_retry = []\<rparr>"
  by (simp add: two_callers_def cold_start_def tstep_def goto_def record_event_def emit_def
      init_manager_def init_world_def)

lemma both_done_eq:
  "pcs both_done 0 = Done (Inr (Primary (Some 0), False))
   \<and> pcs both_done 1 = Done (Inr (Fallback 1, True))
   \<and> ran_retry both_done = [0]"
proof -
  have "connect_ok up_env 1" "1 \<le> CH_MAX_RETRIES default_config"
    by (simp_all add: up_env_def default_config_def)
  note t = try_clickhouse_first_ok[OF this]
  have p: "open_error default_config up_env = None"
    by (simp add: open_error_def up_env_def)
  show ?thesis
    by (simp add: both_done_def cold_start_def tstep_def goto_def record_event_def emit_def
      init_manager_def init_world_def t p get_sqlite_conn_eq)
qed

text \<open>
  C4, as the code has it. Take any number of threads that call \<open>get_connection\<close> while
  \<open>_ch_available\<close> is \<open>None\<close> and stand before line 163, and any schedule of their steps.
  At every moment at most one thread has run the retry sequence, and it is one of the
  callers; once all callers have returned, exactly one has. A caller that returned
  without having run the sequence got the result of the fallback path: its SQLite
  connection, the exception of line 126, or the error of \<open>sqlite3.connect\<close> or of a
  \<open>PRAGMA\<close> statement of lines 128 to 131. A caller at line 164 while another thread
  holds the reconnect lock cannot take a step: it waits for the lock, which is held by a
  thread inside the \<open>with\<close> block of line 164.
\<close>

theorem single_reconnect_on_cold_start:
  assumes "ch_available s = None" and "g = sched cfg xs (cold_start s w callers)"
  shows "length (ran_retry g) \<le> 1
     \<and> set (ran_retry g) \<subseteq> set callers
     \<and> (callers \<noteq> [] \<and> list_all (\<lambda>t. finished (pcs g t)) callers
          \<longrightarrow> length (ran_retry g) = 1)
     \<and> (pcs g t = Done r \<and> t \<notin> set (ran_retry g) \<longrightarrow> fallback_result cfg r)
     \<and> (pcs g t = L164 \<and> ch_lock g = Some u
          \<longrightarrow> tstep cfg env t g = None \<and> u \<noteq> t \<and> (pcs g u = L165 \<or> pcs g u = L166))"
proof -
  have inv: "cold_inv cfg callers g"
    unfolding assms(2) by (intro cold_inv_sched cold_inv_start assms(1))
  have i4: "\<And>u. ch_lock g = Some u \<Longrightarrow> pcs g u = L165 \<or> pcs g u = L166"
    and i5: "(ch_available (mgr g) = None) = (ran_retry g = [])"
    and i6: "length (ran_retry g) \<le> 1"
    and i7: "set (ran_retry g) \<subseteq> set callers"
    and i9: "\<And>u. pcs g u = L170 \<or> finished (pcs g u) \<Longrightarrow> ch_available (mgr g) \<noteq> None"
    and i10: "\<And>u r. pcs g u = Done r \<Longrightarrow> fallback_result cfg r \<or> u \<in> set (ran_retry g)"
    using inv unfolding cold_inv_def by blast+
  have once: "length (ran_retry g) = 1"
    if "callers \<noteq> []" and "list_all (\<lambda>t. finished (pcs g t)) callers"
  proof -
    from that obtain t where "finished (pcs g t)"
      by (cases callers) auto
    then have "ran_retry g \<noteq> []" using i9[of t] i5 by simp
    with i6 show ?thesis by (cases "ran_retry g") auto
  qed
  have fb: "fallback_result cfg r" if "pcs g t = Done r" and "t \<notin> set (ran_retry g)"
    using i10[of t r] that by blast
  have wait: "tstep cfg env t g = None \<and> u \<noteq> t \<and> (pcs g u = L165 \<or> pcs g u = L166)"
    if "pcs g t = L164" and "ch_lock g = Some u"
    using that i4[of u] by (auto simp: tstep_def)
  from i6 i7 once fb wait show ?thesis by blast
qed

text \<open>
  Two callers with ClickHouse up: thread 0 connects and returns the client, thread 1, which
  waited at line 164 meanwhile, returns its SQLite connection; the retry sequence ran
  once.
\<close>

theorem single_reconnect_on_cold_start_witness:
  "ch_available init_manager = None
   \<and> list_all (\<lambda>t. finished (pcs both_done t)) [0, 1]
   \<and> length (ran_retry both_done) = 1
   \<and> pcs both_done 0 = Done (Inr (Primary (Some 0), False))
   \<and> pcs both_done 1 = Done (Inr (Fallback 1, True)) \<and> 1 \<notin> set (ran_retry both_done)
   \<and> fallback_result default_config (Inr (Fallback 1, True))
   \<and> pcs two_callers 1 = L164 \<and> ch_lock two_callers = Some 0
   \<and> tstep default_config up_env 1 two_callers = None \<and> pcs two_callers 0 = L166"
  using
    single_reconnect_on_cold_start [OF _ both_done_def, of 1 "Inr (Fallback 1, True)" 0 up_env]
    single_reconnect_on_cold_start [OF _ two_callers_def, of 1 "Inr (Fallback 1, True)" 0 up_env]
    both_done_eq
  by (simp add: two_callers_eq init_manager_def)

text \<open>
  Two callers: while thread 0 holds the reconnect lock and has not yet run the retry
  sequence, thread 1 is at line 164 and has no step; scheduled three times, it is still
  there.
\<close>

theorem single_reconnect_on_cold_start_counterexample:
  "pcs two_callers 0 = L166 \<and> ch_lock two_callers = Some 0 \<and> pcs two_callers 1 = L164
   \<and> tstep default_config sqlite_env 1 two_callers = None
   \<and> pcs (sched default_config [(1, sqlite_env), (1, sqlite_env), (1, sqlite_env)]
          two_callers) 1 = L164"
  by (simp add: two_callers_eq tstep_def)

end
